theory Spec2Isabelle
  imports Main "HOL-Library.Word"
begin

unbundle bit_operations_syntax

section \<open>The CHIP-8 machine of \<open>src/chips.c\<close>\<close>

text \<open>
  The interpreter core of \<open>chips.c\<close> as HOL functions. The C integers are words of
  their width (\<open>uint8_t\<close>, \<open>uint16_t\<close>, \<open>Uint64\<close>); the three arrays of
  \<open>CHIP8Context\<close> are lists, whose lengths the C types fix (\<open>wf_context\<close> below).
  C leaves an array access outside the array and a shift by a negative count undefined;
  the model makes each of them a \<open>fault\<close>, so that every run with a result is a run
  the C standard defines.
\<close>

type_synonym u8 = "8 word"
type_synonym u16 = "16 word"
type_synonym u64 = "64 word"

subsection \<open>Constants and macros\<close>

definition RAM_SIZE :: nat where
  "RAM_SIZE = 4096"

definition ROM_GAME_ADDRESS_START :: u16 where
  "ROM_GAME_ADDRESS_START = 0x200"

definition STEP_RATE_IN_MILLISECONDS :: u64 where
  "STEP_RATE_IN_MILLISECONDS = 100"

definition CHIP8_DISPLAY_WIDTH :: nat where
  "CHIP8_DISPLAY_WIDTH = 64"

definition CHIP8_DISPLAY_HEIGHT :: nat where
  "CHIP8_DISPLAY_HEIGHT = 32"

definition CHIP8_DISPLAY_MATRIX_SIZE :: nat where
  "CHIP8_DISPLAY_MATRIX_SIZE = CHIP8_DISPLAY_WIDTH * CHIP8_DISPLAY_HEIGHT"

text \<open>The number of elements of \<open>display_cells[CHIP8_DISPLAY_MATRIX_SIZE / 64U]\<close>.\<close>

definition DISPLAY_CELLS_LEN :: nat where
  "DISPLAY_CELLS_LEN = CHIP8_DISPLAY_MATRIX_SIZE div 64"

definition GET_FIRST_NIBBLE :: "u16 \<Rightarrow> u16" where
  "GET_FIRST_NIBBLE instruction = drop_bit 12 (instruction AND 0xF000)"

definition GET_SECOND_NIBBLE :: "u16 \<Rightarrow> u16" where
  "GET_SECOND_NIBBLE instruction = drop_bit 8 (instruction AND 0xF00)"

definition GET_THIRD_NIBBLE :: "u16 \<Rightarrow> u16" where
  "GET_THIRD_NIBBLE instruction = drop_bit 4 (instruction AND 0xF0)"

definition GET_FOURTH_NIBBLE :: "u16 \<Rightarrow> u16" where
  "GET_FOURTH_NIBBLE instruction = instruction AND 0xF"

definition GET_THIRD_AND_FORTH_NIBBLES :: "u16 \<Rightarrow> u16" where
  "GET_THIRD_AND_FORTH_NIBBLES instruction = instruction AND 0xFF"

definition GET_SECOND_THIRD_AND_FOURTH_NIBBLES :: "u16 \<Rightarrow> u16" where
  "GET_SECOND_THIRD_AND_FOURTH_NIBBLES instruction = instruction AND 0xFFF"

subsection \<open>Machine state\<close>

record CHIP8Context =
  RAM :: "u8 list"
  PC :: u16
  I :: u16
  delay_timer :: u8
  sound_timer :: u8
  display_cells :: "u64 list"
  V :: "u8 list"

text \<open>
  \<open>AppState\<close> without its two SDL handles (\<open>window\<close>, \<open>renderer\<close>), which the
  interpreter core never reads.
\<close>

record AppState =
  chip8_context :: CHIP8Context
  need_redraw :: bool
  last_step :: u64

text \<open>The array sizes that the C declaration of \<open>CHIP8Context\<close> fixes.\<close>

definition wf_context :: "CHIP8Context \<Rightarrow> bool" where
  "wf_context c \<longleftrightarrow>
     length (RAM c) = RAM_SIZE \<and> length (display_cells c) = DISPLAY_CELLS_LEN \<and>
     length (V c) = 16"

datatype fault = IndexOutOfRange | ShiftOutOfRange

text \<open>
  The text that \<open>decode_instruction\<close> formats into \<open>*message\<close> with \<open>snprintf\<close>,
  one constructor for each format string, carrying the operands that are printed.
\<close>

datatype message =
    ClearTheDisplay
  | NotAnInstruction
  | JumpToAddress u16
  | SetValueToRegister u8 u8
  | AddValueToRegister u8 u8
  | SetAddressToRegisterI u16
  | DisplaySprite u8 u8 u8

subsection \<open>Fetch\<close>

text \<open>
  \<open>fetch_instruction\<close>: both bytes are read with the index computed in \<open>int\<close>
  (no wrap-around), the result is truncated to 16 bits, and \<open>PC += 0x2\<close> wraps at 16 bits.
\<close>

definition fetch_instruction :: "AppState \<Rightarrow> fault + (u16 \<times> AppState)" where
  "fetch_instruction appstate =
     (let c = chip8_context appstate in
      if RAM_SIZE \<le> unat (PC c) \<or> RAM_SIZE \<le> unat (PC c) + 1 then Inl IndexOutOfRange
      else
        let instruction =
              push_bit 8 (ucast (RAM c ! unat (PC c)) :: u16) OR
              (ucast (RAM c ! (unat (PC c) + 1)) :: u16)
        in Inr (instruction, appstate\<lparr>chip8_context := c\<lparr>PC := PC c + 0x2\<rparr>\<rparr>))"

subsection \<open>Reading a display cell\<close>

text \<open>
  \<open>get_display_cell\<close>: column \<open>col\<close> of a row is bit \<open>64 - col - 1\<close> of its word.
\<close>

definition get_display_cell :: "AppState \<Rightarrow> int \<Rightarrow> int \<Rightarrow> fault + int" where
  "get_display_cell appstate row col =
     (let shift = int CHIP8_DISPLAY_WIDTH - col - 1 in
      if row < 0 \<or> int DISPLAY_CELLS_LEN \<le> row then Inl IndexOutOfRange
      else if shift < 0 \<or> 64 \<le> shift then Inl ShiftOutOfRange
      else Inr (uint (drop_bit (nat shift)
                  (display_cells (chip8_context appstate) ! nat row) AND 0x1)))"

subsection \<open>Decode and execute\<close>

text \<open>
  The inner loop of \<open>DRW\<close>, \<open>for (short x = 0; x < 8; x++)\<close>, on the row
  \<open>display_cells[row]\<close> that \<open>display_row\<close> points to. \<open>bit_pos\<close> is an \<open>int\<close>;
  the shift \<open>(uint64_t)sprite_bit_value << bit_pos\<close> is defined for \<open>0 \<le> bit_pos < 64\<close>
  only.
\<close>

function draw_sprite_bits ::
  "u8 \<Rightarrow> u16 \<Rightarrow> nat \<Rightarrow> nat \<Rightarrow> CHIP8Context \<Rightarrow> fault + CHIP8Context" where
  "draw_sprite_bits sprite_data x_coord row x c =
     (if x < 8 then
        let sprite_bit_value = drop_bit (7 - x) sprite_data AND 0x1;
            bit_pos = int CHIP8_DISPLAY_WIDTH - 1 - (uint x_coord + int x)
        in if bit_pos < 0 \<or> 64 \<le> bit_pos then Inl ShiftOutOfRange
           else draw_sprite_bits sprite_data x_coord row (Suc x)
                  (c\<lparr>display_cells := (display_cells c)
                        [row := display_cells c ! row XOR
                                push_bit (nat bit_pos) (ucast sprite_bit_value :: u64)]\<rparr>)
      else Inr c)"
  by pat_completeness auto
termination
  by (relation "measure (\<lambda>(sprite_data, x_coord, row, x, c). 8 - x)") auto

declare draw_sprite_bits.simps [simp del]

text \<open>
  The outer loop, \<open>for (short y = 0; y < n; y++)\<close>. The sprite byte is
  \<open>RAM[I + y]\<close> and the row is \<open>display_cells[y_coord + y]\<close>, both indices computed in
  \<open>int\<close> and used as they are. The row is written in every pass of the inner loop, so
  a row index outside the array is a fault here.
\<close>

function draw_sprite_rows ::
  "u16 \<Rightarrow> u16 \<Rightarrow> u8 \<Rightarrow> nat \<Rightarrow> CHIP8Context \<Rightarrow> fault + CHIP8Context" where
  "draw_sprite_rows x_coord y_coord n y c =
     (if y < unat n then
        if RAM_SIZE \<le> unat (I c) + y then Inl IndexOutOfRange
        else
          let sprite_data = RAM c ! (unat (I c) + y);
              row = unat y_coord + y
          in if DISPLAY_CELLS_LEN \<le> row then Inl IndexOutOfRange
             else (case draw_sprite_bits sprite_data x_coord row 0 c of
                     Inl e \<Rightarrow> Inl e
                   | Inr c' \<Rightarrow> draw_sprite_rows x_coord y_coord n (Suc y) c')
      else Inr c)"
  by pat_completeness auto
termination
  by (relation "measure (\<lambda>(x_coord, y_coord, n, y, c). unat n - y)") auto

declare draw_sprite_rows.simps [simp del]

text \<open>
  \<open>decode_instruction\<close>: the \<open>switch\<close> on the first nibble, with the nested
  \<open>switch\<close> on the third nibble in case \<open>0x0\<close>. The nibbles are stored in
  \<open>uint8_t\<close> variables, the 12-bit operand in a \<open>uint16_t\<close>.
\<close>

definition decode_instruction :: "u16 \<Rightarrow> AppState \<Rightarrow> fault + (message \<times> AppState)" where
  "decode_instruction instruction appstate =
     (let first_nibble = (ucast (GET_FIRST_NIBBLE instruction) :: u8);
          second_nibble = (ucast (GET_SECOND_NIBBLE instruction) :: u8);
          third_nibble = (ucast (GET_THIRD_NIBBLE instruction) :: u8);
          fourth_nibble = (ucast (GET_FOURTH_NIBBLE instruction) :: u8);
          third_and_fourth_nibbles = (ucast (GET_THIRD_AND_FORTH_NIBBLES instruction) :: u8);
          second_third_and_fourth_nibbles = GET_SECOND_THIRD_AND_FOURTH_NIBBLES instruction;
          c = chip8_context appstate
      in
      if first_nibble = 0x0 then
        (if third_nibble = 0xE then
           Inr (ClearTheDisplay,
                appstate\<lparr>chip8_context := c\<lparr>display_cells := replicate DISPLAY_CELLS_LEN 0\<rparr>,
                         need_redraw := True\<rparr>)
         else Inr (NotAnInstruction, appstate))
      else if first_nibble = 0x1 then
        Inr (JumpToAddress second_third_and_fourth_nibbles,
             appstate\<lparr>chip8_context := c\<lparr>PC := second_third_and_fourth_nibbles\<rparr>\<rparr>)
      else if first_nibble = 0x6 then
        Inr (SetValueToRegister third_and_fourth_nibbles second_nibble,
             appstate\<lparr>chip8_context :=
               c\<lparr>V := (V c)[unat second_nibble := third_and_fourth_nibbles]\<rparr>\<rparr>)
      else if first_nibble = 0x7 then
        Inr (AddValueToRegister third_and_fourth_nibbles second_nibble,
             appstate\<lparr>chip8_context :=
               c\<lparr>V := (V c)[unat second_nibble :=
                           V c ! unat second_nibble + third_and_fourth_nibbles]\<rparr>\<rparr>)
      else if first_nibble = 0xA then
        Inr (SetAddressToRegisterI second_third_and_fourth_nibbles,
             appstate\<lparr>chip8_context := c\<lparr>I := second_third_and_fourth_nibbles\<rparr>\<rparr>)
      else if first_nibble = 0xD then
        (let x_coord = (ucast (V c ! unat second_nibble) :: u16);
             y_coord = (ucast (V c ! unat third_nibble) :: u16);
             n = fourth_nibble
         in case draw_sprite_rows x_coord y_coord n 0 (c\<lparr>V := (V c)[0xF := 0]\<rparr>) of
              Inl e \<Rightarrow> Inl e
            | Inr c' \<Rightarrow>
                Inr (DisplaySprite fourth_nibble second_nibble third_nibble,
                     appstate\<lparr>chip8_context := c', need_redraw := True\<rparr>))
      else Inr (NotAnInstruction, appstate))"

subsection \<open>The pacing loop\<close>

text \<open>
  What one pass of the loop of \<open>SDL_AppIterate\<close> hands to the host: the line it prints
  and, when \<open>need_redraw\<close> is set, the display that \<open>draw_screen\<close> presents
  (\<open>draw_screen\<close> only reads the state, through \<open>get_display_cell\<close> with
  \<open>0 \<le> row < 32\<close> and \<open>0 \<le> col < 64\<close>).
\<close>

datatype host_output = Printed u16 message | Presented "u64 list"

definition emulator_step :: "AppState \<Rightarrow> fault + (AppState \<times> host_output list)" where
  "emulator_step as =
     (case fetch_instruction as of
        Inl e \<Rightarrow> Inl e
      | Inr (cur_instruction, as1) \<Rightarrow>
          (case decode_instruction cur_instruction as1 of
             Inl e \<Rightarrow> Inl e
           | Inr (msg, as2) \<Rightarrow>
               (if need_redraw as2 then
                  Inr (as2\<lparr>need_redraw := False,
                           last_step := last_step as2 + STEP_RATE_IN_MILLISECONDS\<rparr>,
                       [Printed cur_instruction msg,
                        Presented (display_cells (chip8_context as2))])
                else
                  Inr (as2\<lparr>last_step := last_step as2 + STEP_RATE_IN_MILLISECONDS\<rparr>,
                       [Printed cur_instruction msg]))))"

text \<open>
  The loop of \<open>SDL_AppIterate\<close>. Each pass adds \<open>STEP_RATE_IN_MILLISECONDS\<close> to
  \<open>last_step\<close>, which is what makes the loop end: the elapsed time
  \<open>now - last_step\<close>, a \<open>Uint64\<close>, goes down by 100 in every pass.
\<close>

lemma fetch_instruction_last_step:
  "fetch_instruction as = Inr (w, as') \<Longrightarrow> last_step as' = last_step as"
  by (auto simp add: fetch_instruction_def Let_def split: if_splits)

lemma decode_instruction_last_step:
  "decode_instruction w as = Inr (m, as') \<Longrightarrow> last_step as' = last_step as"
  by (auto simp add: decode_instruction_def Let_def split: if_splits sum.splits)

lemma emulator_step_last_step:
  "emulator_step as = Inr (as', out) \<Longrightarrow> last_step as' = last_step as + STEP_RATE_IN_MILLISECONDS"
  by (auto simp add: emulator_step_def split: sum.splits prod.splits if_splits
      dest!: fetch_instruction_last_step decode_instruction_last_step)

lemma elapsed_decreases:
  "STEP_RATE_IN_MILLISECONDS \<le> now - l \<Longrightarrow>
   unat (now - (l + STEP_RATE_IN_MILLISECONDS)) = unat (now - l) - 100"
proof -
  assume a: "STEP_RATE_IN_MILLISECONDS \<le> now - l"
  have e: "now - (l + STEP_RATE_IN_MILLISECONDS) = (now - l) - STEP_RATE_IN_MILLISECONDS"
    by simp
  have "unat ((now - l) - STEP_RATE_IN_MILLISECONDS) = unat (now - l) - unat STEP_RATE_IN_MILLISECONDS"
    using a by (simp add: unat_sub)
  then show ?thesis unfolding e by (simp add: STEP_RATE_IN_MILLISECONDS_def)
qed

function pacing_loop :: "u64 \<Rightarrow> AppState \<Rightarrow> host_output list \<Rightarrow> fault + (AppState \<times> host_output list)" where
  "pacing_loop now as out =
     (if STEP_RATE_IN_MILLISECONDS \<le> now - last_step as then
        (case emulator_step as of
           Inl e \<Rightarrow> Inl e
         | Inr (as', printed) \<Rightarrow> pacing_loop now as' (out @ printed))
      else Inr (as, out))"
  by pat_completeness auto
termination
proof (relation "measure (\<lambda>(now, as, out). unat (now - last_step as))")
  show "wf (measure (\<lambda>(now, as, out). unat (now - last_step as)))" by simp
next
  fix now :: u64 and as out x2 x y
  assume a: "STEP_RATE_IN_MILLISECONDS \<le> now - last_step as"
    and b: "emulator_step as = Inr x2" and c: "(x, y) = x2"
  from b c have "last_step x = last_step as + STEP_RATE_IN_MILLISECONDS"
    by (intro emulator_step_last_step [of as x y]) simp
  moreover have "100 \<le> unat (now - last_step as)"
    using a by (simp add: word_le_nat_alt STEP_RATE_IN_MILLISECONDS_def)
  ultimately show "((now, x, out @ y), (now, as, out)) \<in> measure (\<lambda>(now, as, out). unat (now - last_step as))"
    using elapsed_decreases [OF a] by simp
qed

declare pacing_loop.simps [simp del]

text \<open>\<open>SDL_AppIterate\<close>, with the value of \<open>SDL_GetTicks()\<close> as an argument.\<close>

definition SDL_AppIterate :: "u64 \<Rightarrow> AppState \<Rightarrow> fault + (AppState \<times> host_output list)" where
  "SDL_AppIterate now as = pacing_loop now as []"

section \<open>Notions for stating the properties\<close>

text \<open>
  The operands of an instruction word in a state: the registers that its second and
  third nibble select, \<open>V[second_nibble]\<close> and \<open>V[third_nibble]\<close>.
\<close>

definition Vx :: "u16 \<Rightarrow> AppState \<Rightarrow> u8" where
  "Vx w s = V (chip8_context s) ! unat (GET_SECOND_NIBBLE w)"

definition Vy :: "u16 \<Rightarrow> AppState \<Rightarrow> u8" where
  "Vy w s = V (chip8_context s) ! unat (GET_THIRD_NIBBLE w)"

text \<open>
  The eight bits of a sprite byte as they land in a display row when the left edge is
  column \<open>xc\<close>: bit 7 of the byte at bit \<open>63 - xc\<close> of the row.
\<close>

definition sprite_mask :: "u8 \<Rightarrow> nat \<Rightarrow> u64" where
  "sprite_mask sd xc = push_bit (56 - xc) (ucast sd)"

text \<open>
  A cell is on when \<open>get_display_cell\<close> returns 1 for it; \<open>draw_screen\<close> paints
  such a cell white.
\<close>

definition cell_on :: "AppState \<Rightarrow> nat \<Rightarrow> nat \<Rightarrow> bool" where
  "cell_on s row col \<longleftrightarrow> get_display_cell s (int row) (int col) = Inr 1"

text \<open>
  The sprite of the \<open>DRW\<close> word \<open>w\<close> in state \<open>s\<close> has a set pixel at the display
  position \<open>(row, col)\<close>, with both coordinates taken as they are, not modulo the
  display dimensions.
\<close>

definition sprite_pixel :: "u16 \<Rightarrow> AppState \<Rightarrow> nat \<Rightarrow> nat \<Rightarrow> bool" where
  "sprite_pixel w s row col \<longleftrightarrow>
     unat (Vy w s) \<le> row \<and> row < unat (Vy w s) + unat (GET_FOURTH_NIBBLE w) \<and>
     unat (Vx w s) \<le> col \<and> col < unat (Vx w s) + 8 \<and>
     bit (RAM (chip8_context s) ! (unat (I (chip8_context s)) + (row - unat (Vy w s))))
         (7 - (col - unat (Vx w s)))"

text \<open>
  Every pass of the loop of \<open>SDL_AppIterate\<close> prints exactly one line, so the passes
  of a run are the printed lines of its output.
\<close>

fun printed_line :: "host_output \<Rightarrow> bool" where
  "printed_line (Printed instruction msg) = True"
| "printed_line (Presented cells) = False"

definition cycles_run :: "host_output list \<Rightarrow> nat" where
  "cycles_run out = length (filter printed_line out)"

text \<open>
  \<open>k\<close> passes of the loop body one after the other, from the state \<open>as\<close>: a fault as
  soon as one pass faults, and otherwise the last state with everything that was printed
  and presented, in order.
\<close>

fun run_cycles :: "nat \<Rightarrow> AppState \<Rightarrow> fault + (AppState \<times> host_output list)" where
  "run_cycles 0 as = Inr (as, [])"
| "run_cycles (Suc k) as =
     (case emulator_step as of
        Inl e \<Rightarrow> Inl e
      | Inr (as1, printed1) \<Rightarrow>
          (case run_cycles k as1 of
             Inl e \<Rightarrow> Inl e
           | Inr (as2, printed2) \<Rightarrow> Inr (as2, printed1 @ printed2)))"

section \<open>Example states\<close>

text \<open>
  Machine states on which the theorems below are evaluated. Each has the array sizes of
  \<open>CHIP8Context\<close>.
\<close>

definition fetch_example :: AppState where
  "fetch_example =
     \<lparr>chip8_context =
        \<lparr>RAM = (replicate 4096 0)[0x200 := 0x12, 0x201 := 0x34], PC = 0x200, I = 0,
         delay_timer = 0, sound_timer = 0, display_cells = replicate 32 0,
         V = replicate 16 0\<rparr>,
      need_redraw = False, last_step = 0\<rparr>"

definition cls_example :: AppState where
  "cls_example =
     \<lparr>chip8_context =
        \<lparr>RAM = replicate 4096 0, PC = 0x202, I = 0, delay_timer = 0, sound_timer = 0,
         display_cells = (replicate 32 0)[3 := 0xFF00], V = (replicate 16 0)[2 := 7, 0xF := 1]\<rparr>,
      need_redraw = False, last_step = 0\<rparr>"

definition unknown_example :: AppState where
  "unknown_example =
     \<lparr>chip8_context =
        \<lparr>RAM = (replicate 4096 0)[0x200 := 0x8A, 0x201 := 0xB4], PC = 0x200, I = 0x123,
         delay_timer = 0, sound_timer = 0, display_cells = (replicate 32 0)[3 := 0xFF00],
         V = (replicate 16 0)[2 := 7, 0xF := 1]\<rparr>,
      need_redraw = False, last_step = 0\<rparr>"

definition drw_example :: AppState where
  "drw_example =
     \<lparr>chip8_context =
        \<lparr>RAM = (replicate 4096 0)[0x300 := 0xFF], PC = 0x202, I = 0x300,
         delay_timer = 0, sound_timer = 0, display_cells = replicate 32 0,
         V = (replicate 16 0)[0 := 56, 1 := 5]\<rparr>,
      need_redraw = False, last_step = 0\<rparr>"

definition drw_x60 :: AppState where
  "drw_x60 =
     \<lparr>chip8_context =
        \<lparr>RAM = (replicate 4096 0)[0x300 := 0xFF], PC = 0x202, I = 0x300,
         delay_timer = 0, sound_timer = 0, display_cells = replicate 32 0,
         V = (replicate 16 0)[0 := 60, 1 := 5]\<rparr>,
      need_redraw = False, last_step = 0\<rparr>"

definition drw_y31 :: AppState where
  "drw_y31 =
     \<lparr>chip8_context =
        \<lparr>RAM = (replicate 4096 0)[0x300 := 0xFF, 0x301 := 0xFF], PC = 0x202, I = 0x300,
         delay_timer = 0, sound_timer = 0, display_cells = replicate 32 0,
         V = (replicate 16 0)[0 := 8, 1 := 31]\<rparr>,
      need_redraw = False, last_step = 0\<rparr>"

definition drw_collision :: AppState where
  "drw_collision =
     \<lparr>chip8_context =
        \<lparr>RAM = (replicate 4096 0)[0x300 := 0xFF], PC = 0x202, I = 0x300,
         delay_timer = 0, sound_timer = 0,
         display_cells = (replicate 32 0)[5 := 0xFF],
         V = (replicate 16 0)[0 := 56, 1 := 5, 0xF := 1]\<rparr>,
      need_redraw = False, last_step = 0\<rparr>"

definition drw_vf :: AppState where
  "drw_vf =
     \<lparr>chip8_context =
        \<lparr>RAM = (replicate 4096 0)[0x300 := 0xFF], PC = 0x202, I = 0x300,
         delay_timer = 0, sound_timer = 0, display_cells = replicate 32 0,
         V = (replicate 16 0)[0xF := 8]\<rparr>,
      need_redraw = False, last_step = 0\<rparr>"

definition drw_vf_once :: AppState where
  "drw_vf_once =
     \<lparr>chip8_context =
        \<lparr>RAM = (replicate 4096 0)[0x300 := 0xFF], PC = 0x202, I = 0x300,
         delay_timer = 0, sound_timer = 0,
         display_cells = (replicate 32 0)[0 := 0x00FF000000000000],
         V = replicate 16 0\<rparr>,
      need_redraw = True, last_step = 0\<rparr>"

definition drw_vf_twice :: AppState where
  "drw_vf_twice =
     \<lparr>chip8_context =
        \<lparr>RAM = (replicate 4096 0)[0x300 := 0xFF], PC = 0x202, I = 0x300,
         delay_timer = 0, sound_timer = 0,
         display_cells = (replicate 32 0)[0 := 0xFFFF000000000000],
         V = replicate 16 0\<rparr>,
      need_redraw = True, last_step = 0\<rparr>"

definition drw_top_of_ram :: AppState where
  "drw_top_of_ram =
     \<lparr>chip8_context =
        \<lparr>RAM = (replicate 4096 0)[0xFFF := 0xFF], PC = 0x202, I = 0xFFF,
         delay_timer = 0, sound_timer = 0, display_cells = replicate 32 0,
         V = replicate 16 0\<rparr>,
      need_redraw = False, last_step = 0\<rparr>"

definition drw_twice_example :: AppState where
  "drw_twice_example =
     \<lparr>chip8_context =
        \<lparr>RAM = (replicate 4096 0)[0x300 := 0xA5, 0x301 := 0x3C], PC = 0x202, I = 0x300,
         delay_timer = 0, sound_timer = 0,
         display_cells = (replicate 32 0)[5 := 0xF0F0, 6 := 0x1],
         V = (replicate 16 0)[0 := 50, 1 := 5, 0xF := 1]\<rparr>,
      need_redraw = False, last_step = 0\<rparr>"

definition add_vf :: AppState where
  "add_vf =
     \<lparr>chip8_context =
        \<lparr>RAM = replicate 4096 0, PC = 0x202, I = 0, delay_timer = 0, sound_timer = 0,
         display_cells = replicate 32 0, V = replicate 16 0\<rparr>,
      need_redraw = False, last_step = 0\<rparr>"

definition add_vf_after :: AppState where
  "add_vf_after =
     \<lparr>chip8_context =
        \<lparr>RAM = replicate 4096 0, PC = 0x202, I = 0, delay_timer = 0, sound_timer = 0,
         display_cells = replicate 32 0, V = (replicate 16 0)[0xF := 1]\<rparr>,
      need_redraw = False, last_step = 0\<rparr>"

definition add_example :: AppState where
  "add_example =
     \<lparr>chip8_context =
        \<lparr>RAM = replicate 4096 0, PC = 0x202, I = 0, delay_timer = 0, sound_timer = 0,
         display_cells = replicate 32 0, V = (replicate 16 0)[0 := 0xFF, 0xF := 1]\<rparr>,
      need_redraw = False, last_step = 0\<rparr>"

definition pacing_example :: AppState where
  "pacing_example =
     \<lparr>chip8_context =
        \<lparr>RAM = (replicate 4096 0)[0x200 := 0x00, 0x201 := 0xE0, 0x202 := 0x60, 0x203 := 0x05,
                 0x204 := 0x70, 0x205 := 0x02],
         PC = 0x200, I = 0, delay_timer = 0, sound_timer = 0,
         display_cells = replicate 32 0, V = replicate 16 0\<rparr>,
      need_redraw = False, last_step = 1000\<rparr>"

definition pacing_example_mid :: AppState where
  "pacing_example_mid =
     \<lparr>chip8_context =
        \<lparr>RAM = (replicate 4096 0)[0x200 := 0x00, 0x201 := 0xE0, 0x202 := 0x60, 0x203 := 0x05,
                 0x204 := 0x70, 0x205 := 0x02],
         PC = 0x202, I = 0, delay_timer = 0, sound_timer = 0,
         display_cells = replicate 32 0, V = replicate 16 0\<rparr>,
      need_redraw = False, last_step = 1100\<rparr>"

definition pacing_example_after :: AppState where
  "pacing_example_after =
     \<lparr>chip8_context =
        \<lparr>RAM = (replicate 4096 0)[0x200 := 0x00, 0x201 := 0xE0, 0x202 := 0x60, 0x203 := 0x05,
                 0x204 := 0x70, 0x205 := 0x02],
         PC = 0x204, I = 0, delay_timer = 0, sound_timer = 0,
         display_cells = replicate 32 0, V = (replicate 16 0)[0 := 5]\<rparr>,
      need_redraw = False, last_step = 1200\<rparr>"

section \<open>Facts about the model\<close>

subsection \<open>Instruction fields\<close>

lemmas nibble_defs = GET_FIRST_NIBBLE_def GET_SECOND_NIBBLE_def GET_THIRD_NIBBLE_def
  GET_FOURTH_NIBBLE_def GET_THIRD_AND_FORTH_NIBBLES_def GET_SECOND_THIRD_AND_FOURTH_NIBBLES_def

lemmas size_defs = RAM_SIZE_def DISPLAY_CELLS_LEN_def CHIP8_DISPLAY_MATRIX_SIZE_def
  CHIP8_DISPLAY_WIDTH_def CHIP8_DISPLAY_HEIGHT_def

lemma and_numeral_le: "unat ((w :: u16) AND m) \<le> unat m"
  by (simp add: word_and_le1 flip: word_le_nat_alt)

lemma unat_first: "unat (GET_FIRST_NIBBLE w) < 16"
  using and_numeral_le [of w "0xF000"]
  by (simp add: GET_FIRST_NIBBLE_def unat_drop_bit_eq drop_bit_eq_div unat_div)

lemma unat_second: "unat (GET_SECOND_NIBBLE w) < 16"
  using and_numeral_le [of w "0xF00"]
  by (simp add: GET_SECOND_NIBBLE_def unat_drop_bit_eq drop_bit_eq_div unat_div)

lemma unat_third: "unat (GET_THIRD_NIBBLE w) < 16"
  using and_numeral_le [of w "0xF0"]
  by (simp add: GET_THIRD_NIBBLE_def unat_drop_bit_eq drop_bit_eq_div unat_div)

lemma unat_fourth: "unat (GET_FOURTH_NIBBLE w) < 16"
  using and_numeral_le [of w "0xF"]
  by (simp add: GET_FOURTH_NIBBLE_def)

lemma mask_bit_step:
  "push_bit k (ucast (drop_bit k (sd::u8) AND 1) :: u64) XOR (ucast (take_bit k sd) :: u64)
       = (ucast (take_bit (Suc k) sd) :: u64)"
  apply (rule bit_word_eqI)
  subgoal for n
    by (cases "n = k") (auto simp add: bit_simps less_Suc_eq)
  done

lemma mask_step:
  "push_bit (p + k) (ucast (drop_bit k (sd::u8) AND 1) :: u64) XOR
         push_bit p (ucast (take_bit k sd) :: u64)
       = push_bit p (ucast (take_bit (Suc k) sd) :: u64)"
proof -
  have "push_bit (p + k) (ucast (drop_bit k sd AND 1) :: u64) =
        push_bit p (push_bit k (ucast (drop_bit k sd AND 1)))"
    by (simp add: push_bit_push_bit add.commute)
  then show ?thesis
    by (simp only: push_bit_xor [symmetric] mask_bit_step)
qed

lemma ucast_push8: "unat (push_bit 8 (ucast (a::u8)) OR ucast (b::u8) :: u16) = 256 * unat a + unat b"
proof -
  have "push_bit 8 (ucast a) OR ucast b = (push_bit 8 (ucast a) + ucast b :: u16)"
    by (rule disjunctive_add_eq_or [symmetric]) (auto simp add: bit_eq_iff bit_simps dest: bit_imp_le_length)
  moreover have "unat (push_bit 8 (ucast a) + ucast b :: u16) = 256 * unat a + unat b"
    using unsigned_less [of a, where 'a = nat] unsigned_less [of b, where 'a = nat]
    by (simp add: unat_word_ariths unsigned_push_bit_eq unsigned_ucast_eq push_bit_eq_mult take_bit_nat_eq_self)
  ultimately show ?thesis by simp
qed

subsection \<open>The sprite loops\<close>

lemma draw_sprite_bits_closed:
  "unat xc \<le> 56 \<Longrightarrow> x \<le> 8 \<Longrightarrow> row < length (display_cells c) \<Longrightarrow>
   draw_sprite_bits sd xc row x c =
     Inr (c\<lparr>display_cells := (display_cells c)
            [row := display_cells c ! row XOR
                    push_bit (56 - unat xc) (ucast (take_bit (8 - x) sd))]\<rparr>)"
proof (induction sd xc row x c rule: draw_sprite_bits.induct)
  case (1 sd xc row x c)
  show ?case
  proof (cases "x < 8")
    case False
    with "1.prems" have "x = 8" by simp
    then show ?thesis
      by (subst draw_sprite_bits.simps) simp
  next
    case True
    let ?bp = "int CHIP8_DISPLAY_WIDTH - 1 - (uint xc + int x)"
    have ux: "unat xc = nat (uint xc)" "0 \<le> uint xc"
      by (rule unat_eq_nat_uint) simp
    have bp: "nat ?bp = (56 - unat xc) + (7 - x)" "\<not> (?bp < 0 \<or> 64 \<le> ?bp)"
      using True "1.prems"(1) unfolding ux(1) CHIP8_DISPLAY_WIDTH_def using ux(2) by linarith+
    let ?c1 = "c\<lparr>display_cells := (display_cells c)
                 [row := display_cells c ! row XOR
                    push_bit (nat ?bp) (ucast (drop_bit (7 - x) sd AND 0x1) :: u64)]\<rparr>"
    have "draw_sprite_bits sd xc row x c = draw_sprite_bits sd xc row (Suc x) ?c1"
      using True bp(2) by (subst draw_sprite_bits.simps) (simp add: Let_def)
    also have "\<dots> = Inr (?c1\<lparr>display_cells := (display_cells ?c1)
            [row := display_cells ?c1 ! row XOR
                    push_bit (56 - unat xc) (ucast (take_bit (8 - Suc x) sd))]\<rparr>)"
      using True "1.prems" bp(2) by (intro "1.IH") simp_all
    also have "\<dots> = Inr (c\<lparr>display_cells := (display_cells c)
            [row := display_cells c ! row XOR
                    push_bit (56 - unat xc) (ucast (take_bit (8 - x) sd))]\<rparr>)"
    proof -
      have "Suc (7 - x) = 8 - x" using True by simp
      then show ?thesis
        using "1.prems" mask_step [of "56 - unat xc" "7 - x" sd]
        by (simp add: bp(1) xor.assoc)
    qed
    finally show ?thesis .
  qed
qed

lemma draw_sprite_bits_row:
  "unat xc \<le> 56 \<Longrightarrow> row < length (display_cells c) \<Longrightarrow>
   draw_sprite_bits sd xc row 0 c =
     Inr (c\<lparr>display_cells := (display_cells c)
            [row := display_cells c ! row XOR sprite_mask sd (unat xc)]\<rparr>)"
  by (simp add: draw_sprite_bits_closed sprite_mask_def take_bit_word_eq_self)

lemma draw_sprite_bits_frame:
  "draw_sprite_bits sd xc row x c = Inr c' \<Longrightarrow> c' = c\<lparr>display_cells := display_cells c'\<rparr>"
proof (induction sd xc row x c rule: draw_sprite_bits.induct)
  case (1 sd xc row x c)
  show ?case
  proof (cases "x < 8")
    case False
    with "1.prems" show ?thesis
      by (subst (asm) draw_sprite_bits.simps) simp
  next
    case True
    let ?bp = "int CHIP8_DISPLAY_WIDTH - 1 - (uint xc + int x)"
    let ?c1 = "c\<lparr>display_cells := (display_cells c)
                 [row := display_cells c ! row XOR
                    push_bit (nat ?bp) (ucast (drop_bit (7 - x) sd AND 0x1) :: u64)]\<rparr>"
    from "1.prems" True have ok: "\<not> (?bp < 0 \<or> 64 \<le> ?bp)"
      and run: "draw_sprite_bits sd xc row (Suc x) ?c1 = Inr c'"
      by (subst (asm) draw_sprite_bits.simps; simp add: Let_def split: if_splits)+
    have "c' = ?c1\<lparr>display_cells := display_cells c'\<rparr>"
      using True ok run by (intro "1.IH") simp_all
    then show ?thesis by simp
  qed
qed

lemma draw_sprite_rows_frame:
  "draw_sprite_rows xc yc n y c = Inr c' \<Longrightarrow> c' = c\<lparr>display_cells := display_cells c'\<rparr>"
proof (induction xc yc n y c rule: draw_sprite_rows.induct)
  case (1 xc yc n y c)
  show ?case
  proof (cases "y < unat n")
    case False
    with "1.prems" show ?thesis
      by (subst (asm) draw_sprite_rows.simps) simp
  next
    case True
    let ?sd = "RAM c ! (unat (I c) + y)"
    let ?row = "unat yc + y"
    from "1.prems" True obtain c1 where
      b1: "\<not> RAM_SIZE \<le> unat (I c) + y" and b2: "\<not> DISPLAY_CELLS_LEN \<le> ?row" and
      r1: "draw_sprite_bits ?sd xc ?row 0 c = Inr c1" and
      r2: "draw_sprite_rows xc yc n (Suc y) c1 = Inr c'"
      by (subst (asm) draw_sprite_rows.simps) (auto simp add: Let_def split: if_splits sum.splits)
    have "c' = c1\<lparr>display_cells := display_cells c'\<rparr>"
      using True b1 b2 r1 r2 by (intro "1.IH") simp_all
    moreover have "c1 = c\<lparr>display_cells := display_cells c1\<rparr>"
      using r1 by (rule draw_sprite_bits_frame)
    ultimately show ?thesis
      by (metis CHIP8Context.update_convs(6) CHIP8Context.surjective CHIP8Context.select_convs)
  qed
qed

lemma draw_sprite_rows_closed:
  "unat xc \<le> 56 \<Longrightarrow> unat yc + unat n \<le> DISPLAY_CELLS_LEN \<Longrightarrow>
   unat (I c) + unat n \<le> RAM_SIZE \<Longrightarrow>
   length (display_cells c) = DISPLAY_CELLS_LEN \<Longrightarrow> y \<le> unat n \<Longrightarrow>
   \<exists>cells. draw_sprite_rows xc yc n y c = Inr (c\<lparr>display_cells := cells\<rparr>) \<and>
      length cells = DISPLAY_CELLS_LEN \<and>
      (\<forall>r<DISPLAY_CELLS_LEN. cells ! r =
         (if unat yc + y \<le> r \<and> r < unat yc + unat n
          then display_cells c ! r XOR sprite_mask (RAM c ! (unat (I c) + (r - unat yc))) (unat xc)
          else display_cells c ! r))"
proof (induction xc yc n y c rule: draw_sprite_rows.induct)
  case (1 xc yc n y c)
  show ?case
  proof (cases "y < unat n")
    case False
    with "1.prems" have "draw_sprite_rows xc yc n y c = Inr c"
      by (subst draw_sprite_rows.simps) simp
    moreover have "c = c\<lparr>display_cells := display_cells c\<rparr>" by simp
    ultimately show ?thesis
      using False "1.prems" by (intro exI [of _ "display_cells c"]) auto
  next
    case True
    let ?sd = "RAM c ! (unat (I c) + y)"
    let ?row = "unat yc + y"
    let ?c1 = "c\<lparr>display_cells := (display_cells c)
                 [?row := display_cells c ! ?row XOR sprite_mask ?sd (unat xc)]\<rparr>"
    have b1: "\<not> RAM_SIZE \<le> unat (I c) + y" and b2: "\<not> DISPLAY_CELLS_LEN \<le> ?row"
      using True "1.prems" by simp_all
    have r1: "draw_sprite_bits ?sd xc ?row 0 c = Inr ?c1"
      using "1.prems" b2 by (intro draw_sprite_bits_row) simp_all
    have unf: "draw_sprite_rows xc yc n y c = draw_sprite_rows xc yc n (Suc y) ?c1"
      using True b1 b2 r1 by (subst draw_sprite_rows.simps) (simp add: Let_def)
    have "\<exists>cells. draw_sprite_rows xc yc n (Suc y) ?c1 = Inr (?c1\<lparr>display_cells := cells\<rparr>) \<and>
      length cells = DISPLAY_CELLS_LEN \<and>
      (\<forall>r<DISPLAY_CELLS_LEN. cells ! r =
         (if unat yc + Suc y \<le> r \<and> r < unat yc + unat n
          then display_cells ?c1 ! r XOR sprite_mask (RAM ?c1 ! (unat (I ?c1) + (r - unat yc))) (unat xc)
          else display_cells ?c1 ! r))"
      using True b1 b2 r1 "1.prems" by (intro "1.IH") simp_all
    then obtain cells where
      run: "draw_sprite_rows xc yc n (Suc y) ?c1 = Inr (?c1\<lparr>display_cells := cells\<rparr>)" and
      len: "length cells = DISPLAY_CELLS_LEN" and
      rows: "\<And>r. r < DISPLAY_CELLS_LEN \<Longrightarrow> cells ! r =
         (if unat yc + Suc y \<le> r \<and> r < unat yc + unat n
          then display_cells ?c1 ! r XOR sprite_mask (RAM c ! (unat (I c) + (r - unat yc))) (unat xc)
          else display_cells ?c1 ! r)"
      by auto
    have "draw_sprite_rows xc yc n y c = Inr (c\<lparr>display_cells := cells\<rparr>)"
      using unf run by simp
    moreover have "cells ! r =
         (if unat yc + y \<le> r \<and> r < unat yc + unat n
          then display_cells c ! r XOR sprite_mask (RAM c ! (unat (I c) + (r - unat yc))) (unat xc)
          else display_cells c ! r)" if "r < DISPLAY_CELLS_LEN" for r
    proof (cases "r = ?row")
      case True
      then show ?thesis
        using rows [OF that] \<open>y < unat n\<close> "1.prems"(4) that by simp
    next
      case False
      then show ?thesis
        using rows [OF that] by auto
    qed
    ultimately show ?thesis
      using len by blast
  qed
qed

lemma unat_ucast_nibble: "unat (x :: u16) < 16 \<Longrightarrow> unat (ucast x :: u8) = unat x"
  by (simp add: unsigned_ucast_eq take_bit_nat_eq_self)

lemma ucast_nibble_eq_iff:
  "unat (x :: u16) < 16 \<Longrightarrow> unat (k :: u16) < 16 \<Longrightarrow> ((ucast x :: u8) = ucast k) = (x = k)"
  by (metis unat_ucast_nibble word_unat_eq_iff)

lemma first_nibble_eq_iff:
  "((ucast (GET_FIRST_NIBBLE w) :: u8) = 0x0) = (GET_FIRST_NIBBLE w = 0x0)"
  "((ucast (GET_FIRST_NIBBLE w) :: u8) = 0x1) = (GET_FIRST_NIBBLE w = 0x1)"
  "((ucast (GET_FIRST_NIBBLE w) :: u8) = 0x6) = (GET_FIRST_NIBBLE w = 0x6)"
  "((ucast (GET_FIRST_NIBBLE w) :: u8) = 0x7) = (GET_FIRST_NIBBLE w = 0x7)"
  "((ucast (GET_FIRST_NIBBLE w) :: u8) = 0xA) = (GET_FIRST_NIBBLE w = 0xA)"
  "((ucast (GET_FIRST_NIBBLE w) :: u8) = 0xD) = (GET_FIRST_NIBBLE w = 0xD)"
  using ucast_nibble_eq_iff [OF unat_first, of 0 w] ucast_nibble_eq_iff [OF unat_first, of 1 w]
    ucast_nibble_eq_iff [OF unat_first, of 6 w] ucast_nibble_eq_iff [OF unat_first, of 7 w]
    ucast_nibble_eq_iff [OF unat_first, of "0xA" w] ucast_nibble_eq_iff [OF unat_first, of "0xD" w]
  by simp_all

lemma third_nibble_eq_iff:
  "((ucast (GET_THIRD_NIBBLE w) :: u8) = 0xE) = (GET_THIRD_NIBBLE w = 0xE)"
  using ucast_nibble_eq_iff [OF unat_third, of "0xE" w] by simp

subsection \<open>The cases of \<open>decode_instruction\<close>\<close>

lemma decode_instruction_CLS:
  "GET_FIRST_NIBBLE w = 0x0 \<Longrightarrow> GET_THIRD_NIBBLE w = 0xE \<Longrightarrow>
   decode_instruction w s =
     Inr (ClearTheDisplay,
          s\<lparr>chip8_context := (chip8_context s)\<lparr>display_cells := replicate DISPLAY_CELLS_LEN 0\<rparr>,
            need_redraw := True\<rparr>)"
  by (simp add: decode_instruction_def)

lemma decode_instruction_unknown:
  "GET_FIRST_NIBBLE w \<notin> {0x1, 0x6, 0x7, 0xA, 0xD} \<Longrightarrow>
   (GET_FIRST_NIBBLE w = 0x0 \<longrightarrow> GET_THIRD_NIBBLE w \<noteq> 0xE) \<Longrightarrow>
   decode_instruction w s = Inr (NotAnInstruction, s)"
  by (simp add: decode_instruction_def Let_def first_nibble_eq_iff third_nibble_eq_iff)

lemma decode_instruction_ADD:
  "GET_FIRST_NIBBLE w = 0x7 \<Longrightarrow>
   decode_instruction w s =
     Inr (AddValueToRegister (ucast (GET_THIRD_AND_FORTH_NIBBLES w)) (ucast (GET_SECOND_NIBBLE w)),
          s\<lparr>chip8_context := (chip8_context s)
            \<lparr>V := (V (chip8_context s))[unat (GET_SECOND_NIBBLE w) :=
                  V (chip8_context s) ! unat (GET_SECOND_NIBBLE w) +
                  ucast (GET_THIRD_AND_FORTH_NIBBLES w)]\<rparr>\<rparr>)"
  by (simp add: decode_instruction_def Let_def unat_ucast_nibble unat_second)

lemma decode_instruction_DRW:
  "GET_FIRST_NIBBLE w = 0xD \<Longrightarrow>
   decode_instruction w s =
     (case draw_sprite_rows (ucast (V (chip8_context s) ! unat (GET_SECOND_NIBBLE w)))
             (ucast (V (chip8_context s) ! unat (GET_THIRD_NIBBLE w)))
             (ucast (GET_FOURTH_NIBBLE w)) 0
             ((chip8_context s)\<lparr>V := (V (chip8_context s))[0xF := 0]\<rparr>) of
        Inl e \<Rightarrow> Inl e
      | Inr c' \<Rightarrow>
          Inr (DisplaySprite (ucast (GET_FOURTH_NIBBLE w)) (ucast (GET_SECOND_NIBBLE w))
                 (ucast (GET_THIRD_NIBBLE w)),
               s\<lparr>chip8_context := c', need_redraw := True\<rparr>))"
  by (simp add: decode_instruction_def Let_def unat_ucast_nibble unat_second unat_third)

lemma get_display_cell_bit:
  "row < DISPLAY_CELLS_LEN \<Longrightarrow> col < CHIP8_DISPLAY_WIDTH \<Longrightarrow>
   get_display_cell s (int row) (int col) =
     Inr (if bit (display_cells (chip8_context s) ! row) (63 - col) then 1 else 0)"
proof -
  assume a: "row < DISPLAY_CELLS_LEN" "col < CHIP8_DISPLAY_WIDTH"
  have sh: "nat (63 - int col) = 63 - col"
    by arith
  have "uint (drop_bit k w AND 1) = (if bit w k then 1 else 0)" for k and w :: u64
    by (simp add: and_one_eq bit_iff_odd_drop_bit mod_2_eq_odd uint_word_ariths)
  then show ?thesis
    using a by (simp add: get_display_cell_def Let_def sh CHIP8_DISPLAY_WIDTH_def)
qed

lemma unat_ucast_u8_u16: "unat (ucast (v :: u8) :: u16) = unat v"
  by (simp add: unsigned_ucast_eq take_bit_nat_eq_self_iff unsigned_less [where 'a = nat, of v, simplified] less_trans [OF unsigned_less [of v, where 'a = nat]])

lemma unat_ucast_fourth: "unat (ucast (GET_FOURTH_NIBBLE w) :: u8) = unat (GET_FOURTH_NIBBLE w)"
  by (simp add: unat_ucast_nibble unat_fourth)

lemma decode_instruction_DRW_in_range:
  assumes D: "GET_FIRST_NIBBLE w = 0xD"
    and wf: "wf_context (chip8_context s)"
    and x: "unat (Vx w s) \<le> 56"
    and y: "unat (Vy w s) + unat (GET_FOURTH_NIBBLE w) \<le> DISPLAY_CELLS_LEN"
    and i: "unat (I (chip8_context s)) + unat (GET_FOURTH_NIBBLE w) \<le> RAM_SIZE"
  shows "\<exists>cells. decode_instruction w s =
           Inr (DisplaySprite (ucast (GET_FOURTH_NIBBLE w)) (ucast (GET_SECOND_NIBBLE w))
                  (ucast (GET_THIRD_NIBBLE w)),
                s\<lparr>chip8_context := (chip8_context s)
                    \<lparr>V := (V (chip8_context s))[0xF := 0], display_cells := cells\<rparr>,
                  need_redraw := True\<rparr>) \<and>
           length cells = DISPLAY_CELLS_LEN \<and>
           (\<forall>r<DISPLAY_CELLS_LEN. cells ! r =
              (if unat (Vy w s) \<le> r \<and> r < unat (Vy w s) + unat (GET_FOURTH_NIBBLE w)
               then display_cells (chip8_context s) ! r XOR
                    sprite_mask (RAM (chip8_context s) !
                        (unat (I (chip8_context s)) + (r - unat (Vy w s)))) (unat (Vx w s))
               else display_cells (chip8_context s) ! r))"
proof -
  let ?c = "chip8_context s"
  let ?cz = "?c\<lparr>V := (V ?c)[0xF := 0]\<rparr>"
  let ?xc = "ucast (V ?c ! unat (GET_SECOND_NIBBLE w)) :: u16"
  let ?yc = "ucast (V ?c ! unat (GET_THIRD_NIBBLE w)) :: u16"
  let ?n = "ucast (GET_FOURTH_NIBBLE w) :: u8"
  have "\<exists>cells. draw_sprite_rows ?xc ?yc ?n 0 ?cz = Inr (?cz\<lparr>display_cells := cells\<rparr>) \<and>
      length cells = DISPLAY_CELLS_LEN \<and>
      (\<forall>r<DISPLAY_CELLS_LEN. cells ! r =
         (if unat ?yc + 0 \<le> r \<and> r < unat ?yc + unat ?n
          then display_cells ?cz ! r XOR sprite_mask (RAM ?cz ! (unat (I ?cz) + (r - unat ?yc))) (unat ?xc)
          else display_cells ?cz ! r))"
    using wf x y i
    by (intro draw_sprite_rows_closed)
      (simp_all add: unat_ucast_u8_u16 unat_ucast_fourth Vx_def Vy_def wf_context_def)
  then obtain cells where
    run: "draw_sprite_rows ?xc ?yc ?n 0 ?cz = Inr (?cz\<lparr>display_cells := cells\<rparr>)" and
    len: "length cells = DISPLAY_CELLS_LEN" and
    rows: "\<forall>r<DISPLAY_CELLS_LEN. cells ! r =
         (if unat (Vy w s) \<le> r \<and> r < unat (Vy w s) + unat (GET_FOURTH_NIBBLE w)
          then display_cells ?c ! r XOR
               sprite_mask (RAM ?c ! (unat (I ?c) + (r - unat (Vy w s)))) (unat (Vx w s))
          else display_cells ?c ! r)"
    by (auto simp add: unat_ucast_u8_u16 unat_ucast_fourth Vx_def Vy_def)
  have "decode_instruction w s =
           Inr (DisplaySprite ?n (ucast (GET_SECOND_NIBBLE w)) (ucast (GET_THIRD_NIBBLE w)),
                s\<lparr>chip8_context := ?cz\<lparr>display_cells := cells\<rparr>, need_redraw := True\<rparr>)"
    unfolding decode_instruction_DRW [OF D] run by simp
  with len rows show ?thesis by blast
qed

lemma cell_on_bit:
  "row < DISPLAY_CELLS_LEN \<Longrightarrow> col < CHIP8_DISPLAY_WIDTH \<Longrightarrow>
   cell_on s row col = bit (display_cells (chip8_context s) ! row) (63 - col)"
  by (simp add: cell_on_def get_display_cell_bit)

lemma bit_byte_ones: "bit (0xFF :: u8) k \<longleftrightarrow> k < 8"
proof -
  have "(0xFF :: u8) = mask 8"
    by (simp add: mask_eq_exp_minus_1)
  then show ?thesis
    by (simp only: bit_mask_iff) simp
qed

lemma bit_sprite_mask:
  assumes "x0 \<le> 56" and "col < 64"
  shows "bit (sprite_mask sd x0) (63 - col) = (x0 \<le> col \<and> col < x0 + 8 \<and> bit sd (7 - (col - x0)))"
proof -
  have b: "bit (sprite_mask sd x0) k = (56 - x0 \<le> k \<and> k < 64 \<and> bit sd (k - (56 - x0)))" for k
    by (auto simp add: sprite_mask_def bit_push_bit_iff bit_ucast_iff)
  show ?thesis
  proof (cases "x0 \<le> col \<and> col < x0 + 8")
    case True
    then have e: "63 - col - (56 - x0) = 7 - (col - x0)"
      and l: "56 - x0 \<le> 63 - col" "63 - col < 64"
      using assms by arith+
    show ?thesis
      unfolding b e using True l by blast
  next
    case False
    then have "\<not> 56 - x0 \<le> 63 - col \<or> 8 \<le> 63 - col - (56 - x0)"
      using assms by arith
    moreover have "\<not> bit sd (63 - col - (56 - x0))" if "8 \<le> 63 - col - (56 - x0)"
      using that bit_imp_le_length [of sd "63 - col - (56 - x0)"] by auto
    ultimately show ?thesis
      unfolding b using False by blast
  qed
qed

lemma DRW_cells_toggle:
  assumes "GET_FIRST_NIBBLE w = 0xD"
    and "wf_context (chip8_context s)"
    and "unat (Vx w s) + 7 \<le> 63"
    and "unat (Vy w s) + unat (GET_FOURTH_NIBBLE w) \<le> CHIP8_DISPLAY_HEIGHT"
    and "unat (I (chip8_context s)) + unat (GET_FOURTH_NIBBLE w) \<le> RAM_SIZE"
  shows "\<exists>m s'. decode_instruction w s = Inr (m, s') \<and>
           (\<forall>row<CHIP8_DISPLAY_HEIGHT. \<forall>col<CHIP8_DISPLAY_WIDTH.
              cell_on s' row col = (cell_on s row col \<noteq> sprite_pixel w s row col))"
proof -
  have x: "unat (Vx w s) \<le> 56" using assms(3) by simp
  have y: "unat (Vy w s) + unat (GET_FOURTH_NIBBLE w) \<le> DISPLAY_CELLS_LEN"
    using assms(4) by (simp add: size_defs)
  from decode_instruction_DRW_in_range [OF assms(1,2) x y assms(5)]
  obtain m cells where
    run: "decode_instruction w s =
           Inr (m, s\<lparr>chip8_context := (chip8_context s)
                    \<lparr>V := (V (chip8_context s))[0xF := 0], display_cells := cells\<rparr>,
                  need_redraw := True\<rparr>)" and
    rows: "\<forall>r<DISPLAY_CELLS_LEN. cells ! r =
              (if unat (Vy w s) \<le> r \<and> r < unat (Vy w s) + unat (GET_FOURTH_NIBBLE w)
               then display_cells (chip8_context s) ! r XOR
                    sprite_mask (RAM (chip8_context s) !
                        (unat (I (chip8_context s)) + (r - unat (Vy w s)))) (unat (Vx w s))
               else display_cells (chip8_context s) ! r)"
    by blast
  let ?s' = "s\<lparr>chip8_context := (chip8_context s)
                    \<lparr>V := (V (chip8_context s))[0xF := 0], display_cells := cells\<rparr>,
                  need_redraw := True\<rparr>"
  have "cell_on ?s' row col = (cell_on s row col \<noteq> sprite_pixel w s row col)"
    if "row < CHIP8_DISPLAY_HEIGHT" "col < CHIP8_DISPLAY_WIDTH" for row col
  proof -
    have r: "row < DISPLAY_CELLS_LEN" and c: "col < 64"
      using that by (simp_all add: size_defs)
    show ?thesis
    proof (cases "unat (Vy w s) \<le> row \<and> row < unat (Vy w s) + unat (GET_FOURTH_NIBBLE w)")
      case True
      then have "cells ! row = display_cells (chip8_context s) ! row XOR
                    sprite_mask (RAM (chip8_context s) !
                        (unat (I (chip8_context s)) + (row - unat (Vy w s)))) (unat (Vx w s))"
        using rows [rule_format, OF r] by auto
      then show ?thesis
        using True that(2) r
        by (simp add: cell_on_bit sprite_pixel_def bit_xor_iff bit_sprite_mask [OF x c])
    next
      case False
      then have "cells ! row = display_cells (chip8_context s) ! row"
        using rows [rule_format, OF r] by auto
      then show ?thesis
        using False that(2) r by (auto simp add: cell_on_bit sprite_pixel_def)
    qed
  qed
  with run show ?thesis by blast
qed

lemma decode_instruction_DRW_V:
  assumes D: "GET_FIRST_NIBBLE w = 0xD"
    and run: "decode_instruction w s = Inr (m, s')"
  shows "V (chip8_context s') = (V (chip8_context s))[0xF := 0]"
proof -
  from run obtain c' where
    rows: "draw_sprite_rows (ucast (V (chip8_context s) ! unat (GET_SECOND_NIBBLE w)))
             (ucast (V (chip8_context s) ! unat (GET_THIRD_NIBBLE w)))
             (ucast (GET_FOURTH_NIBBLE w)) 0
             ((chip8_context s)\<lparr>V := (V (chip8_context s))[0xF := 0]\<rparr>) = Inr c'"
    and s': "s' = s\<lparr>chip8_context := c', need_redraw := True\<rparr>"
    unfolding decode_instruction_DRW [OF D] by (auto split: sum.splits)
  from draw_sprite_rows_frame [OF rows] have "V c' = (V (chip8_context s))[0xF := 0]"
    by (metis CHIP8Context.select_convs(7) CHIP8Context.surjective
        CHIP8Context.update_convs(6) CHIP8Context.update_convs(7))
  then show ?thesis by (simp add: s')
qed

lemma list_update_replicate_same: "n < k \<Longrightarrow> (replicate k x)[n := x] = replicate k x"
  by (simp add: list_eq_iff_nth_eq nth_list_update)

lemma unat_ucast_byte:
  "unat (ucast (GET_THIRD_AND_FORTH_NIBBLES w) :: u8) = unat (GET_THIRD_AND_FORTH_NIBBLES w)"
  using and_numeral_le [of w "0xFF"]
  by (simp add: GET_THIRD_AND_FORTH_NIBBLES_def unsigned_ucast_eq take_bit_nat_eq_self)

subsection \<open>The pacing loop\<close>

lemma emulator_step_one_cycle:
  "emulator_step as = Inr (as', out) \<Longrightarrow> cycles_run out = 1"
  by (auto simp add: emulator_step_def cycles_run_def split: sum.splits prod.splits if_splits)

lemma pacing_loop_cycles:
  "pacing_loop now as out = Inr (as', out') \<Longrightarrow>
   cycles_run out' = cycles_run out + unat (now - last_step as) div 100 \<and>
   last_step as' = last_step as + 100 * of_nat (unat (now - last_step as) div 100) \<and>
   unat (now - last_step as') = unat (now - last_step as) mod 100"
proof (induction now as out rule: pacing_loop.induct)
  case (1 now as out)
  show ?case
  proof (cases "STEP_RATE_IN_MILLISECONDS \<le> now - last_step as")
    case False
    then have "unat (now - last_step as) < 100"
      by (simp add: word_le_nat_alt STEP_RATE_IN_MILLISECONDS_def)
    moreover from "1.prems" False have "as' = as" "out' = out"
      by (subst (asm) pacing_loop.simps; simp)+
    ultimately show ?thesis by simp
  next
    case True
    then have ge: "100 \<le> unat (now - last_step as)"
      by (simp add: word_le_nat_alt STEP_RATE_IN_MILLISECONDS_def)
    from "1.prems" True obtain as1 printed where
      step: "emulator_step as = Inr (as1, printed)" and
      rest: "pacing_loop now as1 (out @ printed) = Inr (as', out')"
      by (subst (asm) pacing_loop.simps) (auto split: sum.splits)
    have l1: "last_step as1 = last_step as + 100"
      using emulator_step_last_step [OF step] by (simp add: STEP_RATE_IN_MILLISECONDS_def)
    have d1: "unat (now - last_step as1) = unat (now - last_step as) - 100"
      using elapsed_decreases [OF True] l1 by (simp add: STEP_RATE_IN_MILLISECONDS_def)
    have k: "unat (now - last_step as) div 100 = Suc (unat (now - last_step as1) div 100)"
      and r: "unat (now - last_step as1) mod 100 = unat (now - last_step as) mod 100"
      using ge d1 by (simp_all add: le_div_geq le_mod_geq)
    from "1.IH" [OF True step refl rest]
    have ih: "cycles_run out' = cycles_run (out @ printed) + unat (now - last_step as1) div 100"
      "last_step as' = last_step as1 + 100 * of_nat (unat (now - last_step as1) div 100)"
      "unat (now - last_step as') = unat (now - last_step as1) mod 100"
      by blast+
    have "cycles_run (out @ printed) = Suc (cycles_run out)"
      using emulator_step_one_cycle [OF step] by (simp add: cycles_run_def)
    with ih k r l1 show ?thesis
      by (simp add: algebra_simps)
  qed
qed

lemma pacing_loop_run_cycles:
  "pacing_loop now as out =
     (case run_cycles (unat (now - last_step as) div 100) as of
        Inl e \<Rightarrow> Inl e
      | Inr (as', printed) \<Rightarrow> Inr (as', out @ printed))"
proof (induction now as out rule: pacing_loop.induct)
  case (1 now as out)
  show ?case
  proof (cases "STEP_RATE_IN_MILLISECONDS \<le> now - last_step as")
    case False
    then have "unat (now - last_step as) div 100 = 0"
      by (simp add: word_le_nat_alt STEP_RATE_IN_MILLISECONDS_def)
    moreover from False have "pacing_loop now as out = Inr (as, out)"
      by (subst pacing_loop.simps) simp
    ultimately show ?thesis by simp
  next
    case True
    then have ge: "100 \<le> unat (now - last_step as)"
      by (simp add: word_le_nat_alt STEP_RATE_IN_MILLISECONDS_def)
    show ?thesis
    proof (cases "emulator_step as")
      case (Inl e)
      from ge obtain k where k: "unat (now - last_step as) div 100 = Suc k"
        by (metis Suc_pred' div_greater_zero_iff zero_less_numeral)
      from True Inl have "pacing_loop now as out = Inl e"
        by (subst pacing_loop.simps) simp
      then show ?thesis
        using Inl by (simp add: k)
    next
      case (Inr r)
      obtain as1 printed where r: "r = (as1, printed)" by (cases r)
      have step: "emulator_step as = Inr (as1, printed)"
        using Inr r by simp
      have l1: "last_step as1 = last_step as + 100"
        using emulator_step_last_step [OF step] by (simp add: STEP_RATE_IN_MILLISECONDS_def)
      have d1: "unat (now - last_step as1) = unat (now - last_step as) - 100"
        using elapsed_decreases [OF True] l1 by (simp add: STEP_RATE_IN_MILLISECONDS_def)
      have k: "unat (now - last_step as) div 100 = Suc (unat (now - last_step as1) div 100)"
        using ge d1 by (simp add: le_div_geq)
      have "pacing_loop now as out = pacing_loop now as1 (out @ printed)"
        using True step by (subst pacing_loop.simps) simp
      also have "\<dots> = (case run_cycles (unat (now - last_step as1) div 100) as1 of
                          Inl e \<Rightarrow> Inl e
                        | Inr (as', printed') \<Rightarrow> Inr (as', (out @ printed) @ printed'))"
        by (rule "1.IH" [OF True step refl])
      finally show ?thesis
        unfolding k using step by (simp split: sum.splits prod.splits)
    qed
  qed
qed

section \<open>The properties\<close>

subsection \<open>Sprite drawing at the display edges\<close>

text \<open>
  C1, as amended. A \<open>DRW\<close> whose sprite lies inside the display and inside \<open>RAM\<close>
  (\<open>x0 + 7 \<le> 63\<close>, \<open>y0 + n \<le> 32\<close> and \<open>I + n \<le> 4096\<close>, where \<open>x0\<close> and \<open>y0\<close> are the
  registers that the second and third nibble select and \<open>n\<close> is the fourth nibble)
  completes, and it toggles exactly the cells \<open>(y0 + y, x0 + x)\<close>, \<open>y < n\<close>, \<open>x < 8\<close>, at
  which bit \<open>7 - x\<close> of \<open>RAM[I + y]\<close> is set. A sprite byte \<open>0xFF\<close> thus toggles the columns
  \<open>x0\<close> to \<open>x0 + 7\<close> of its row and no other cell. \<open>decode_instruction\<close> takes neither
  coordinate modulo the display dimensions.
\<close>

theorem DRW_in_range_toggles_sprite_cells:
  assumes "GET_FIRST_NIBBLE w = 0xD"
    and "wf_context (chip8_context s)"
    and "unat (Vx w s) + 7 \<le> 63"
    and "unat (Vy w s) + unat (GET_FOURTH_NIBBLE w) \<le> CHIP8_DISPLAY_HEIGHT"
    and "unat (I (chip8_context s)) + unat (GET_FOURTH_NIBBLE w) \<le> RAM_SIZE"
  shows "\<exists>m s'. decode_instruction w s = Inr (m, s') \<and>
           (\<forall>row<CHIP8_DISPLAY_HEIGHT. \<forall>col<CHIP8_DISPLAY_WIDTH.
              cell_on s' row col = (cell_on s row col \<noteq> sprite_pixel w s row col))"
  using DRW_cells_toggle [OF assms] .

text \<open>
  With \<open>x0 = 56\<close>, \<open>y0 = 5\<close> and the sprite byte \<open>0xFF\<close> the cells of row 5 in the columns
  56 to 63 come on; columns 0 and 55 of that row and row 6 stay off.
\<close>

theorem DRW_in_range_toggles_sprite_cells_witness:
  "GET_FIRST_NIBBLE 0xD011 = 0xD \<and> wf_context (chip8_context drw_example) \<and>
   unat (Vx 0xD011 drw_example) = 56 \<and> unat (Vy 0xD011 drw_example) = 5 \<and>
   unat (GET_FOURTH_NIBBLE 0xD011) = 1 \<and> unat (I (chip8_context drw_example)) + 1 \<le> RAM_SIZE \<and>
   (\<exists>m s'. decode_instruction 0xD011 drw_example = Inr (m, s') \<and>
      cell_on s' 5 56 \<and> cell_on s' 5 63 \<and> \<not> cell_on s' 5 0 \<and> \<not> cell_on s' 5 55 \<and>
      \<not> cell_on s' 6 56)"
proof -
  have h: "GET_FIRST_NIBBLE 0xD011 = 0xD" "wf_context (chip8_context drw_example)"
    "unat (Vx 0xD011 drw_example) + 7 \<le> 63"
    "unat (Vy 0xD011 drw_example) + unat (GET_FOURTH_NIBBLE 0xD011) \<le> CHIP8_DISPLAY_HEIGHT"
    "unat (I (chip8_context drw_example)) + unat (GET_FOURTH_NIBBLE 0xD011) \<le> RAM_SIZE"
    and v: "unat (Vx 0xD011 drw_example) = 56" "unat (Vy 0xD011 drw_example) = 5"
      "unat (GET_FOURTH_NIBBLE 0xD011) = 1"
    by (simp_all add: nibble_defs wf_context_def drw_example_def Vx_def Vy_def size_defs)
  from DRW_in_range_toggles_sprite_cells [OF h] obtain m s' where
    run: "decode_instruction 0xD011 drw_example = Inr (m, s')" and
    cells: "\<And>row col. row < CHIP8_DISPLAY_HEIGHT \<Longrightarrow> col < CHIP8_DISPLAY_WIDTH \<Longrightarrow>
      cell_on s' row col = (cell_on drw_example row col \<noteq> sprite_pixel 0xD011 drw_example row col)"
    by blast
  have off: "\<not> cell_on drw_example row col" if "row < 32" "col < 64" for row col
    using that by (simp add: cell_on_bit size_defs) (simp add: drw_example_def)
  have sp: "sprite_pixel 0xD011 drw_example 5 56" "sprite_pixel 0xD011 drw_example 5 63"
    "\<not> sprite_pixel 0xD011 drw_example 5 0" "\<not> sprite_pixel 0xD011 drw_example 5 55"
    "\<not> sprite_pixel 0xD011 drw_example 6 56"
    unfolding sprite_pixel_def v
    by (simp_all add: drw_example_def bit_byte_ones)
  have "cell_on s' 5 56" "cell_on s' 5 63" "\<not> cell_on s' 5 0" "\<not> cell_on s' 5 55"
      "\<not> cell_on s' 6 56"
    by (simp_all add: cells off sp size_defs)
  with run h v show ?thesis by auto
qed

text \<open>
  C1 as it is stated fails. With \<open>x0 = 60\<close> and the sprite byte \<open>0xFF\<close> the fifth sprite
  bit has \<open>bit_pos = 63 - 64 = -1\<close>, a shift count that C leaves undefined: no defined run
  writes the columns 0 to 3. With \<open>y0 = 31\<close> and two sprite rows the second row is
  \<open>display_cells[32]\<close>, outside the array.
\<close>

theorem DRW_edge_counterexample:
  "decode_instruction 0xD011 drw_x60 = Inl ShiftOutOfRange \<and>
   decode_instruction 0xD012 drw_y31 = Inl IndexOutOfRange"
proof -
  have D: "GET_FIRST_NIBBLE 0xD011 = 0xD" "GET_FIRST_NIBBLE 0xD012 = 0xD"
    by (simp_all add: nibble_defs)
  have "decode_instruction 0xD011 drw_x60 = Inl ShiftOutOfRange"
    unfolding decode_instruction_DRW [OF D(1)]
    by (simp add: nibble_defs drw_x60_def size_defs Let_def
        draw_sprite_rows.simps [of _ _ _ 0]
        draw_sprite_bits.simps [of _ _ _ 0] draw_sprite_bits.simps [of _ _ _ "Suc 0"]
        draw_sprite_bits.simps [of _ _ _ "Suc (Suc 0)"]
        draw_sprite_bits.simps [of _ _ _ "Suc (Suc (Suc 0))"]
        draw_sprite_bits.simps [of _ _ _ "Suc (Suc (Suc (Suc 0)))"])
  moreover have "decode_instruction 0xD012 drw_y31 = Inl IndexOutOfRange"
    unfolding decode_instruction_DRW [OF D(2)]
    by (simp add: nibble_defs drw_y31_def size_defs Let_def
        draw_sprite_rows.simps [of _ _ _ 0] draw_sprite_rows.simps [of _ _ _ "Suc 0"]
        draw_sprite_bits_row)
  ultimately show ?thesis by simp
qed

subsection \<open>Drawing a sprite twice\<close>

text \<open>
  C2, as amended. When the draw stays within the display (\<open>x0 + 7 \<le> 63\<close> and
  \<open>y0 + n - 1 \<le> 31\<close>), the sprite bytes lie in \<open>RAM\<close> (\<open>I + n \<le> 4096\<close>) and neither
  coordinate register is \<open>VF\<close> unless \<open>VF\<close> is 0 already, executing the same \<open>DRW\<close> twice in
  succession completes both times and gives back the \<open>display_cells\<close> it started from.
\<close>

theorem DRW_twice_restores_display:
  assumes D: "GET_FIRST_NIBBLE w = 0xD"
    and wf: "wf_context (chip8_context s)"
    and x: "unat (Vx w s) + 7 \<le> 63"
    and y: "int (unat (Vy w s)) + int (unat (GET_FOURTH_NIBBLE w)) - 1 \<le> 31"
    and i: "unat (I (chip8_context s)) + unat (GET_FOURTH_NIBBLE w) \<le> RAM_SIZE"
    and vf: "GET_SECOND_NIBBLE w = 0xF \<or> GET_THIRD_NIBBLE w = 0xF \<longrightarrow>
             V (chip8_context s) ! 0xF = 0"
  shows "\<exists>m1 s1 m2 s2. decode_instruction w s = Inr (m1, s1) \<and>
           decode_instruction w s1 = Inr (m2, s2) \<and>
           display_cells (chip8_context s2) = display_cells (chip8_context s)"
proof -
  let ?c = "chip8_context s"
  let ?n = "unat (GET_FOURTH_NIBBLE w)"
  let ?mask = "\<lambda>r. sprite_mask (RAM ?c ! (unat (I ?c) + (r - unat (Vy w s)))) (unat (Vx w s))"
  have x': "unat (Vx w s) \<le> 56" using x by simp
  have L: "DISPLAY_CELLS_LEN = 32" by (simp add: size_defs)
  have y': "unat (Vy w s) + ?n \<le> DISPLAY_CELLS_LEN"
    unfolding L using y by linarith
  from decode_instruction_DRW_in_range [OF D wf x' y' i] obtain m1 cells1 where
    run1: "decode_instruction w s =
             Inr (m1, s\<lparr>chip8_context := ?c\<lparr>V := (V ?c)[0xF := 0], display_cells := cells1\<rparr>,
                        need_redraw := True\<rparr>)" and
    len1: "length cells1 = DISPLAY_CELLS_LEN" and
    rows1: "\<And>r. r < DISPLAY_CELLS_LEN \<Longrightarrow> cells1 ! r =
              (if unat (Vy w s) \<le> r \<and> r < unat (Vy w s) + ?n
               then display_cells ?c ! r XOR ?mask r else display_cells ?c ! r)"
    by blast
  let ?s1 = "s\<lparr>chip8_context := ?c\<lparr>V := (V ?c)[0xF := 0], display_cells := cells1\<rparr>,
               need_redraw := True\<rparr>"
  have lenV: "length (V ?c) = 16" using wf by (simp add: wf_context_def)
  have same: "(V ?c)[0xF := 0] ! k = V ?c ! k"
    if "k < 16" "k = 15 \<longrightarrow> V ?c ! 0xF = 0" for k
    using that lenV by (cases "k = 15") simp_all
  have "GET_SECOND_NIBBLE w = 0xF" if "unat (GET_SECOND_NIBBLE w) = 15"
    using that by (simp add: word_unat_eq_iff)
  then have vx: "Vx w ?s1 = Vx w s"
    using same [OF unat_second [of w]] vf by (auto simp add: Vx_def)
  have "GET_THIRD_NIBBLE w = 0xF" if "unat (GET_THIRD_NIBBLE w) = 15"
    using that by (simp add: word_unat_eq_iff)
  then have vy: "Vy w ?s1 = Vy w s"
    using same [OF unat_third [of w]] vf by (auto simp add: Vy_def)
  have wf1: "wf_context (chip8_context ?s1)"
    using wf len1 by (simp add: wf_context_def)
  have x1: "unat (Vx w ?s1) \<le> 56"
    and y1: "unat (Vy w ?s1) + ?n \<le> DISPLAY_CELLS_LEN"
    and i1: "unat (I (chip8_context ?s1)) + ?n \<le> RAM_SIZE"
    using x' y' i by (simp_all only: vx vy) simp
  from decode_instruction_DRW_in_range [OF D wf1 x1 y1 i1] obtain m2 s2 cells2 where
    run2: "decode_instruction w ?s1 = Inr (m2, s2)" and
    s2: "display_cells (chip8_context s2) = cells2" and
    len2: "length cells2 = DISPLAY_CELLS_LEN" and
    rows2: "\<And>r. r < DISPLAY_CELLS_LEN \<Longrightarrow> cells2 ! r =
              (if unat (Vy w s) \<le> r \<and> r < unat (Vy w s) + ?n
               then cells1 ! r XOR ?mask r else cells1 ! r)"
    unfolding vx vy by fastforce
  have "cells2 = display_cells ?c"
  proof (rule nth_equalityI)
    show "length cells2 = length (display_cells ?c)"
      using len2 wf by (simp add: wf_context_def)
  next
    fix r assume "r < length cells2"
    then have r: "r < DISPLAY_CELLS_LEN" using len2 by simp
    show "cells2 ! r = display_cells ?c ! r"
      using rows1 [OF r] rows2 [OF r] by (simp add: xor.assoc)
  qed
  with run1 run2 s2 show ?thesis by blast
qed

text \<open>
  A two-row sprite at \<open>x0 = 50\<close>, \<open>y0 = 5\<close> over a display that is not empty.
\<close>

theorem DRW_twice_restores_display_witness:
  "GET_FIRST_NIBBLE 0xD012 = 0xD \<and> wf_context (chip8_context drw_twice_example) \<and>
   unat (Vx 0xD012 drw_twice_example) = 50 \<and> unat (Vy 0xD012 drw_twice_example) = 5 \<and>
   unat (GET_FOURTH_NIBBLE 0xD012) = 2 \<and>
   GET_SECOND_NIBBLE 0xD012 \<noteq> 0xF \<and> GET_THIRD_NIBBLE 0xD012 \<noteq> 0xF \<and>
   (\<exists>m1 s1 m2 s2. decode_instruction 0xD012 drw_twice_example = Inr (m1, s1) \<and>
       decode_instruction 0xD012 s1 = Inr (m2, s2) \<and>
       display_cells (chip8_context s2) = display_cells (chip8_context drw_twice_example))"
proof -
  have h: "GET_FIRST_NIBBLE 0xD012 = 0xD" "wf_context (chip8_context drw_twice_example)"
    "unat (Vx 0xD012 drw_twice_example) + 7 \<le> 63"
    "int (unat (Vy 0xD012 drw_twice_example)) + int (unat (GET_FOURTH_NIBBLE 0xD012)) - 1 \<le> 31"
    "unat (I (chip8_context drw_twice_example)) + unat (GET_FOURTH_NIBBLE 0xD012) \<le> RAM_SIZE"
    "GET_SECOND_NIBBLE 0xD012 = 0xF \<or> GET_THIRD_NIBBLE 0xD012 = 0xF \<longrightarrow>
             V (chip8_context drw_twice_example) ! 0xF = 0"
    and v: "unat (Vx 0xD012 drw_twice_example) = 50" "unat (Vy 0xD012 drw_twice_example) = 5"
      "unat (GET_FOURTH_NIBBLE 0xD012) = 2"
      "GET_SECOND_NIBBLE 0xD012 \<noteq> 0xF" "GET_THIRD_NIBBLE 0xD012 \<noteq> 0xF"
    by (simp_all add: nibble_defs wf_context_def drw_twice_example_def Vx_def Vy_def size_defs)
  from DRW_twice_restores_display [OF h] h(1,2) v show ?thesis by blast
qed

text \<open>
  C2 as it is stated fails in two ways, both inside the display. The word \<open>0xDF01\<close>
  takes its column from \<open>VF\<close>, which the first execution sets to 0: with \<open>VF = 8\<close> the first
  draw toggles the columns 8 to 15 of row 0 and the second the columns 0 to 7, so that
  row 0 ends as \<open>0xFFFF000000000000\<close> and not as the 0 it was. And with \<open>I = 0xFFF\<close> a
  sprite of two rows reads \<open>RAM[4096]\<close>.
\<close>

theorem DRW_twice_counterexample:
  "unat (Vx 0xDF01 drw_vf) + 7 \<le> 63 \<and> int (unat (Vy 0xDF01 drw_vf)) + 1 - 1 \<le> 31 \<and>
   decode_instruction 0xDF01 drw_vf = Inr (DisplaySprite 1 0xF 0, drw_vf_once) \<and>
   decode_instruction 0xDF01 drw_vf_once = Inr (DisplaySprite 1 0xF 0, drw_vf_twice) \<and>
   display_cells (chip8_context drw_vf_twice) ! 0 \<noteq> display_cells (chip8_context drw_vf) ! 0 \<and>
   unat (Vx 0xD002 drw_top_of_ram) + 7 \<le> 63 \<and> int (unat (Vy 0xD002 drw_top_of_ram)) + 2 - 1 \<le> 31 \<and>
   decode_instruction 0xD002 drw_top_of_ram = Inl IndexOutOfRange"
proof -
  have D: "GET_FIRST_NIBBLE 0xDF01 = 0xD" "GET_FIRST_NIBBLE 0xD002 = 0xD"
    by (simp_all add: nibble_defs)
  have 1: "decode_instruction 0xDF01 drw_vf = Inr (DisplaySprite 1 0xF 0, drw_vf_once)"
    unfolding decode_instruction_DRW [OF D(1)]
    by (simp add: nibble_defs drw_vf_def drw_vf_once_def size_defs Let_def
        draw_sprite_rows.simps [of _ _ _ 0] draw_sprite_rows.simps [of _ _ _ "Suc 0"]
        draw_sprite_bits_row sprite_mask_def list_update_replicate_same)
  have 2: "decode_instruction 0xDF01 drw_vf_once = Inr (DisplaySprite 1 0xF 0, drw_vf_twice)"
    unfolding decode_instruction_DRW [OF D(1)]
    by (simp add: nibble_defs drw_vf_once_def drw_vf_twice_def size_defs Let_def
        draw_sprite_rows.simps [of _ _ _ 0] draw_sprite_rows.simps [of _ _ _ "Suc 0"]
        draw_sprite_bits_row sprite_mask_def list_update_replicate_same)
  have 3: "decode_instruction 0xD002 drw_top_of_ram = Inl IndexOutOfRange"
    unfolding decode_instruction_DRW [OF D(2)]
    by (simp add: nibble_defs drw_top_of_ram_def size_defs Let_def
        draw_sprite_rows.simps [of _ _ _ 0] draw_sprite_rows.simps [of _ _ _ "Suc 0"]
        draw_sprite_bits_row)
  have 4: "display_cells (chip8_context drw_vf_twice) ! 0 \<noteq> display_cells (chip8_context drw_vf) ! 0"
    by (simp add: drw_vf_def drw_vf_twice_def)
  have 5: "unat (Vx 0xDF01 drw_vf) + 7 \<le> 63" "int (unat (Vy 0xDF01 drw_vf)) + 1 - 1 \<le> 31"
    "unat (Vx 0xD002 drw_top_of_ram) + 7 \<le> 63" "int (unat (Vy 0xD002 drw_top_of_ram)) + 2 - 1 \<le> 31"
    by (simp_all add: Vx_def Vy_def nibble_defs drw_vf_def drw_top_of_ram_def)
  from 1 2 3 4 5 show ?thesis by blast
qed

subsection \<open>Fetch\<close>

text \<open>
  C3. When \<open>PC + 1\<close> is inside \<open>RAM\<close>, \<open>fetch_instruction\<close> returns the word whose
  high byte is \<open>RAM[PC]\<close> and whose low byte is \<open>RAM[PC + 1]\<close> (the bytes
  \<open>0x12\<close>, \<open>0x34\<close> give \<open>0x1234\<close>), the new \<open>PC\<close> is the old one plus 2 without
  wrap-around, and the state is otherwise the one it was given.
\<close>

theorem fetch_instruction_big_endian:
  assumes "unat (PC (chip8_context s)) + 1 < RAM_SIZE"
  shows "\<exists>w. fetch_instruction s =
              Inr (w, s\<lparr>chip8_context := (chip8_context s)\<lparr>PC := PC (chip8_context s) + 2\<rparr>\<rparr>) \<and>
            unat w = 256 * unat (RAM (chip8_context s) ! unat (PC (chip8_context s))) +
                     unat (RAM (chip8_context s) ! (unat (PC (chip8_context s)) + 1)) \<and>
            unat (PC (chip8_context s) + 2) = unat (PC (chip8_context s)) + 2 \<and>
            (RAM (chip8_context s) ! unat (PC (chip8_context s)) = 0x12 \<and>
             RAM (chip8_context s) ! (unat (PC (chip8_context s)) + 1) = 0x34 \<longrightarrow> w = 0x1234)"
proof -
  let ?c = "chip8_context s"
  let ?w = "push_bit 8 (ucast (RAM ?c ! unat (PC ?c)) :: u16) OR
            (ucast (RAM ?c ! (unat (PC ?c) + 1)) :: u16)"
  have "fetch_instruction s = Inr (?w, s\<lparr>chip8_context := ?c\<lparr>PC := PC ?c + 2\<rparr>\<rparr>)"
    using assms by (simp add: fetch_instruction_def Let_def)
  moreover have "unat ?w = 256 * unat (RAM ?c ! unat (PC ?c)) + unat (RAM ?c ! (unat (PC ?c) + 1))"
    by (rule ucast_push8)
  moreover have "unat (PC ?c + 2) = unat (PC ?c) + 2"
    using assms by (simp add: unat_word_ariths RAM_SIZE_def)
  moreover have "RAM ?c ! unat (PC ?c) = 0x12 \<and> RAM ?c ! (unat (PC ?c) + 1) = 0x34 \<longrightarrow> ?w = 0x1234"
    by simp
  ultimately show ?thesis by blast
qed

text \<open>
  The bytes \<open>0x12\<close>, \<open>0x34\<close> at \<open>0x200\<close>.
\<close>

theorem fetch_instruction_big_endian_witness:
  "unat (PC (chip8_context fetch_example)) + 1 < RAM_SIZE \<and>
   fetch_instruction fetch_example =
     Inr (0x1234, fetch_example\<lparr>chip8_context := (chip8_context fetch_example)\<lparr>PC := 0x202\<rparr>\<rparr>)"
proof -
  have h: "unat (PC (chip8_context fetch_example)) + 1 < RAM_SIZE"
    by (simp add: fetch_example_def RAM_SIZE_def)
  from fetch_instruction_big_endian [OF h] show ?thesis
    using h by (auto simp add: fetch_example_def)
qed

subsection \<open>The pacing loop\<close>

text \<open>
  C4. \<open>SDL_AppIterate\<close> runs exactly \<open>elapsed div 100\<close> fetch+decode+execute cycles,
  where \<open>elapsed = now - last_step\<close> is read as an unsigned 64-bit value: its result is
  the result of that many passes of the loop body in sequence, a fault only when one
  of these passes faults. When it returns, it has printed one line per cycle,
  \<open>last_step\<close> has advanced by 100 for each cycle, and \<open>elapsed mod 100\<close> is still owed.
  With \<open>elapsed = 250\<close>: whenever the first two cycles return, the run returns with
  exactly their output, \<open>last_step\<close> advanced by 200 and 50 ms kept.
\<close>

theorem pacing_loop_runs_floor_elapsed_steps:
  "SDL_AppIterate now as = run_cycles (unat (now - last_step as) div 100) as \<and>
   (\<forall>as' out. SDL_AppIterate now as = Inr (as', out) \<longrightarrow>
      cycles_run out = unat (now - last_step as) div 100 \<and>
      last_step as' = last_step as + 100 * of_nat (unat (now - last_step as) div 100) \<and>
      unat (now - last_step as') = unat (now - last_step as) mod 100 \<and>
      (now - last_step as = 250 \<longrightarrow>
         cycles_run out = 2 \<and> last_step as' = last_step as + 200 \<and>
         now - last_step as' = 50)) \<and>
   (now - last_step as = 250 \<longrightarrow>
      (\<forall>as1 out1 as2 out2.
          emulator_step as = Inr (as1, out1) \<and> emulator_step as1 = Inr (as2, out2) \<longrightarrow>
          SDL_AppIterate now as = Inr (as2, out1 @ out2)))"
proof -
  have eq: "SDL_AppIterate now as = run_cycles (unat (now - last_step as) div 100) as"
    by (simp add: SDL_AppIterate_def pacing_loop_run_cycles split: sum.splits prod.splits)
  have ret: "cycles_run out = unat (now - last_step as) div 100 \<and>
      last_step as' = last_step as + 100 * of_nat (unat (now - last_step as) div 100) \<and>
      unat (now - last_step as') = unat (now - last_step as) mod 100 \<and>
      (now - last_step as = 250 \<longrightarrow>
         cycles_run out = 2 \<and> last_step as' = last_step as + 200 \<and>
         now - last_step as' = 50)"
    if "SDL_AppIterate now as = Inr (as', out)" for as' out
  proof -
    from that have run: "pacing_loop now as [] = Inr (as', out)"
      by (simp add: SDL_AppIterate_def)
    note g = pacing_loop_cycles [OF run]
    have g1: "cycles_run out = unat (now - last_step as) div 100"
      using g by (simp add: cycles_run_def)
    have g2: "last_step as' = last_step as + 100 * of_nat (unat (now - last_step as) div 100)"
      and g3: "unat (now - last_step as') = unat (now - last_step as) mod 100"
      using g by blast+
    have "cycles_run out = 2 \<and> last_step as' = last_step as + 200 \<and> now - last_step as' = 50"
      if e: "now - last_step as = 250"
    proof -
      have "unat (now - last_step as') = 50" unfolding g3 e by simp
      then have "now - last_step as' = 50" by (simp add: word_unat_eq_iff)
      moreover have "cycles_run out = 2" unfolding g1 e by simp
      moreover have "last_step as' = last_step as + 200" unfolding g2 e by simp
      ultimately show ?thesis by blast
    qed
    with g1 g2 g3 show ?thesis by blast
  qed
  have two: "SDL_AppIterate now as = Inr (as2, out1 @ out2)"
    if e: "now - last_step as = 250"
      and s: "emulator_step as = Inr (as1, out1) \<and> emulator_step as1 = Inr (as2, out2)"
    for as1 out1 as2 out2
  proof -
    have "unat (now - last_step as) div 100 = Suc (Suc 0)"
      unfolding e by simp
    then show ?thesis
      unfolding eq using s by simp
  qed
  from eq ret two show ?thesis by blast
qed

text \<open>
  A run over \<open>CLS\<close>, \<open>LD V0, 5\<close>, \<open>ADD V0, 2\<close> with \<open>last_step = 1000\<close> and
  \<open>now = 1250\<close>: the first two instructions are executed, the third is not.
\<close>

theorem pacing_loop_runs_floor_elapsed_steps_witness:
  "1250 - last_step pacing_example = 250 \<and>
   emulator_step pacing_example =
     Inr (pacing_example_mid, [Printed 0x00E0 ClearTheDisplay, Presented (replicate 32 0)]) \<and>
   emulator_step pacing_example_mid =
     Inr (pacing_example_after, [Printed 0x6005 (SetValueToRegister 5 0)]) \<and>
   SDL_AppIterate 1250 pacing_example =
     Inr (pacing_example_after,
          [Printed 0x00E0 ClearTheDisplay, Presented (replicate 32 0),
           Printed 0x6005 (SetValueToRegister 5 0)]) \<and>
   cycles_run [Printed 0x00E0 ClearTheDisplay, Presented (replicate 32 0),
           Printed 0x6005 (SetValueToRegister 5 0)] = 2 \<and>
   last_step pacing_example_after = last_step pacing_example + 200 \<and>
   1250 - last_step pacing_example_after = 50"
proof -
  have e: "1250 - last_step pacing_example = 250"
    by (simp add: pacing_example_def)
  have s1: "emulator_step pacing_example =
     Inr (pacing_example_mid, [Printed 0x00E0 ClearTheDisplay, Presented (replicate 32 0)])"
    by (simp add: pacing_example_def pacing_example_mid_def STEP_RATE_IN_MILLISECONDS_def
        emulator_step_def fetch_instruction_def decode_instruction_def nibble_defs size_defs)
  have s2: "emulator_step pacing_example_mid =
     Inr (pacing_example_after, [Printed 0x6005 (SetValueToRegister 5 0)])"
    by (simp add: pacing_example_mid_def pacing_example_after_def STEP_RATE_IN_MILLISECONDS_def
        emulator_step_def fetch_instruction_def decode_instruction_def nibble_defs size_defs)
  note t = pacing_loop_runs_floor_elapsed_steps [of 1250 pacing_example]
  from t e s1 s2 have run: "SDL_AppIterate 1250 pacing_example =
     Inr (pacing_example_after,
          [Printed 0x00E0 ClearTheDisplay, Presented (replicate 32 0)] @
          [Printed 0x6005 (SetValueToRegister 5 0)])"
    by blast
  with t e have "cycles_run ([Printed 0x00E0 ClearTheDisplay, Presented (replicate 32 0)] @
          [Printed 0x6005 (SetValueToRegister 5 0)]) = 2 \<and>
      last_step pacing_example_after = last_step pacing_example + 200 \<and>
      1250 - last_step pacing_example_after = 50"
    by blast
  with e s1 s2 run show ?thesis by simp
qed

subsection \<open>ADD Vx, byte\<close>

text \<open>
  C5, as amended. \<open>ADD Vx, byte\<close> (\<open>0x7XNN\<close>) sets \<open>Vx\<close> to (old value + \<open>NN\<close>) modulo 256
  and changes no other register and no other part of the state: \<open>VF\<close> keeps its value
  whenever \<open>X\<close> is not \<open>0xF\<close>, and no carry is recorded. With \<open>V0 = 0xFF\<close> the word
  \<open>0x7002\<close> yields \<open>V0 = 0x01\<close>.
\<close>

theorem ADD_Vx_byte_wraps:
  assumes A: "GET_FIRST_NIBBLE w = 0x7" and wf: "wf_context (chip8_context s)"
  shows "\<exists>m s'. decode_instruction w s = Inr (m, s') \<and>
           s' = s\<lparr>chip8_context := (chip8_context s)\<lparr>V := V (chip8_context s')\<rparr>\<rparr> \<and>
           unat (Vx w s') = (unat (Vx w s) + unat (GET_THIRD_AND_FORTH_NIBBLES w)) mod 256 \<and>
           (\<forall>k<16. k \<noteq> unat (GET_SECOND_NIBBLE w) \<longrightarrow>
               V (chip8_context s') ! k = V (chip8_context s) ! k) \<and>
           (GET_SECOND_NIBBLE w \<noteq> 0xF \<longrightarrow>
               V (chip8_context s') ! 0xF = V (chip8_context s) ! 0xF) \<and>
           (w = 0x7002 \<and> V (chip8_context s) ! 0 = 0xFF \<longrightarrow> V (chip8_context s') ! 0 = 0x01)"
proof -
  let ?c = "chip8_context s"
  let ?x = "unat (GET_SECOND_NIBBLE w)"
  let ?nn = "ucast (GET_THIRD_AND_FORTH_NIBBLES w) :: u8"
  let ?V' = "(V ?c)[?x := V ?c ! ?x + ?nn]"
  let ?s' = "s\<lparr>chip8_context := ?c\<lparr>V := ?V'\<rparr>\<rparr>"
  have lenV: "length (V ?c) = 16" using wf by (simp add: wf_context_def)
  have xlt: "?x < length (V ?c)" using unat_second [of w] lenV by simp
  have run: "decode_instruction w s = Inr (AddValueToRegister ?nn (ucast (GET_SECOND_NIBBLE w)), ?s')"
    by (rule decode_instruction_ADD [OF A])
  have new: "?V' ! ?x = V ?c ! ?x + ?nn"
    using xlt by simp
  have 1: "unat (Vx w ?s') = (unat (Vx w s) + unat (GET_THIRD_AND_FORTH_NIBBLES w)) mod 256"
    using new by (simp add: Vx_def unat_word_ariths unat_ucast_byte)
  have 2: "?V' ! k = V ?c ! k" if "k \<noteq> ?x" for k
    using that by simp
  have 3: "?V' ! 0xF = V ?c ! 0xF" if "GET_SECOND_NIBBLE w \<noteq> 0xF"
  proof -
    from that have "?x \<noteq> 15" by (simp add: word_unat_eq_iff)
    then show ?thesis by simp
  qed
  have 4: "?V' ! 0 = 0x01" if "w = 0x7002 \<and> V ?c ! 0 = 0xFF"
    using that lenV by (simp add: nibble_defs)
  from run 1 2 3 4 show ?thesis
    by (intro exI [of _ "AddValueToRegister ?nn (ucast (GET_SECOND_NIBBLE w))"] exI [of _ ?s'])
      simp
qed

text \<open>
  \<open>0x7002\<close> with \<open>V0 = 0xFF\<close> and \<open>VF = 1\<close>.
\<close>

theorem ADD_Vx_byte_wraps_witness:
  "GET_FIRST_NIBBLE 0x7002 = 0x7 \<and> wf_context (chip8_context add_example) \<and>
   V (chip8_context add_example) ! 0 = 0xFF \<and> V (chip8_context add_example) ! 0xF = 1 \<and>
   (\<exists>m s'. decode_instruction 0x7002 add_example = Inr (m, s') \<and>
      V (chip8_context s') ! 0 = 0x01 \<and> V (chip8_context s') ! 0xF = 1)"
proof -
  have h: "GET_FIRST_NIBBLE 0x7002 = 0x7" "wf_context (chip8_context add_example)"
    and v: "V (chip8_context add_example) ! 0 = 0xFF" "V (chip8_context add_example) ! 0xF = 1"
      "GET_SECOND_NIBBLE 0x7002 \<noteq> 0xF"
    by (simp_all add: nibble_defs wf_context_def add_example_def size_defs)
  from ADD_Vx_byte_wraps [OF h] v h show ?thesis by metis
qed

text \<open>
  C5 as it is stated fails for \<open>X = 0xF\<close>: \<open>0x7F01\<close> adds 1 to \<open>VF\<close> itself.
\<close>

theorem ADD_VF_counterexample:
  "GET_FIRST_NIBBLE 0x7F01 = 0x7 \<and>
   decode_instruction 0x7F01 add_vf = Inr (AddValueToRegister 1 0xF, add_vf_after) \<and>
   V (chip8_context add_vf) ! 0xF = 0 \<and> V (chip8_context add_vf_after) ! 0xF = 1"
  by (simp add: decode_instruction_def nibble_defs add_vf_def add_vf_after_def)

subsection \<open>CLS\<close>

text \<open>
  C6. Executing \<open>0x00E0\<close> sets every element of \<open>display_cells\<close> to 0, so that
  \<open>get_display_cell\<close> returns 0 for every cell of the display, sets \<open>need_redraw\<close> and
  leaves the registers \<open>V\<close> as they were.
\<close>

theorem CLS_clears_display:
  "\<exists>s'. decode_instruction 0x00E0 s = Inr (ClearTheDisplay, s') \<and>
        display_cells (chip8_context s') = replicate DISPLAY_CELLS_LEN 0 \<and>
        (\<forall>row<CHIP8_DISPLAY_HEIGHT. \<forall>col<CHIP8_DISPLAY_WIDTH.
            get_display_cell s' (int row) (int col) = Inr 0) \<and>
        need_redraw s' \<and>
        V (chip8_context s') = V (chip8_context s)"
proof -
  let ?s' = "s\<lparr>chip8_context := (chip8_context s)\<lparr>display_cells := replicate DISPLAY_CELLS_LEN 0\<rparr>,
              need_redraw := True\<rparr>"
  have "decode_instruction 0x00E0 s = Inr (ClearTheDisplay, ?s')"
    by (rule decode_instruction_CLS) (simp_all add: nibble_defs)
  moreover have "get_display_cell ?s' (int row) (int col) = Inr 0"
    if "row < CHIP8_DISPLAY_HEIGHT" "col < CHIP8_DISPLAY_WIDTH" for row col
    using that
    by (simp add: get_display_cell_bit DISPLAY_CELLS_LEN_def CHIP8_DISPLAY_MATRIX_SIZE_def
        CHIP8_DISPLAY_WIDTH_def CHIP8_DISPLAY_HEIGHT_def)
  ultimately show ?thesis by simp
qed

text \<open>
  A display with cells on and registers that are not 0.
\<close>

theorem CLS_clears_display_witness:
  "\<exists>s'. decode_instruction 0x00E0 cls_example = Inr (ClearTheDisplay, s') \<and>
        get_display_cell cls_example 3 48 = Inr 1 \<and> get_display_cell s' 3 48 = Inr 0 \<and>
        need_redraw s' \<and> V (chip8_context s') ! 2 = 7 \<and> V (chip8_context s') ! 0xF = 1"
proof -
  obtain s' where s': "decode_instruction 0x00E0 cls_example = Inr (ClearTheDisplay, s')"
    "\<forall>row<CHIP8_DISPLAY_HEIGHT. \<forall>col<CHIP8_DISPLAY_WIDTH.
            get_display_cell s' (int row) (int col) = Inr 0"
    "need_redraw s'" "V (chip8_context s') = V (chip8_context cls_example)"
    using CLS_clears_display [of cls_example] by blast
  have "get_display_cell s' (int 3) (int 48) = Inr 0"
    using s'(2) [rule_format, of 3 48] by (simp add: CHIP8_DISPLAY_HEIGHT_def CHIP8_DISPLAY_WIDTH_def)
  moreover have "get_display_cell cls_example (int 3) (int 48) = Inr 1"
    by (simp add: get_display_cell_def DISPLAY_CELLS_LEN_def CHIP8_DISPLAY_MATRIX_SIZE_def
        CHIP8_DISPLAY_WIDTH_def CHIP8_DISPLAY_HEIGHT_def cls_example_def)
  ultimately show ?thesis
    using s'(1,3,4) by (simp add: cls_example_def)
qed

subsection \<open>Unknown opcodes\<close>

text \<open>
  C7. A word that no case of \<open>decode_instruction\<close> recognises (its first nibble is
  none of 1, 6, 7, \<open>0xA\<close>, \<open>0xD\<close>, and it is not a word with first nibble 0 and third
  nibble \<open>0xE\<close>) leaves the whole state as it is: registers, \<open>RAM\<close>, \<open>I\<close>,
  \<open>display_cells\<close>, \<open>need_redraw\<close> and \<open>PC\<close>. When the word was fetched from a state
  \<open>s0\<close>, that \<open>PC\<close> is the \<open>PC\<close> of \<open>s0\<close> plus 2.
\<close>

theorem unknown_opcode_changes_nothing:
  assumes "GET_FIRST_NIBBLE w \<notin> {0x1, 0x6, 0x7, 0xA, 0xD}"
    and "GET_FIRST_NIBBLE w = 0x0 \<longrightarrow> GET_THIRD_NIBBLE w \<noteq> 0xE"
  shows "decode_instruction w s = Inr (NotAnInstruction, s) \<and>
         (\<forall>s0. fetch_instruction s0 = Inr (w, s) \<longrightarrow>
            PC (chip8_context s) = PC (chip8_context s0) + 2)"
proof -
  have "PC (chip8_context s) = PC (chip8_context s0) + 2"
    if "fetch_instruction s0 = Inr (w, s)" for s0
    using that by (auto simp add: fetch_instruction_def Let_def split: if_splits)
  then show ?thesis
    using decode_instruction_unknown [OF assms, of s] by blast
qed

text \<open>
  The word \<open>0x8AB4\<close>, fetched from \<open>0x200\<close>.
\<close>

theorem unknown_opcode_changes_nothing_witness:
  "GET_FIRST_NIBBLE 0x8AB4 = 0x8 \<and>
   fetch_instruction unknown_example =
     Inr (0x8AB4, unknown_example\<lparr>chip8_context := (chip8_context unknown_example)\<lparr>PC := 0x202\<rparr>\<rparr>) \<and>
   decode_instruction 0x8AB4
       (unknown_example\<lparr>chip8_context := (chip8_context unknown_example)\<lparr>PC := 0x202\<rparr>\<rparr>) =
     Inr (NotAnInstruction,
          unknown_example\<lparr>chip8_context := (chip8_context unknown_example)\<lparr>PC := 0x202\<rparr>\<rparr>)"
proof -
  have a: "GET_FIRST_NIBBLE 0x8AB4 \<notin> {0x1, 0x6, 0x7, 0xA, 0xD}"
    and b: "GET_FIRST_NIBBLE 0x8AB4 = 0x0 \<longrightarrow> GET_THIRD_NIBBLE 0x8AB4 \<noteq> 0xE"
    by (simp_all add: nibble_defs)
  have "fetch_instruction unknown_example =
     Inr (0x8AB4, unknown_example\<lparr>chip8_context := (chip8_context unknown_example)\<lparr>PC := 0x202\<rparr>\<rparr>)"
    by (simp add: fetch_instruction_def unknown_example_def RAM_SIZE_def)
  moreover have "GET_FIRST_NIBBLE 0x8AB4 = 0x8"
    by (simp add: nibble_defs)
  ultimately show ?thesis
    using unknown_opcode_changes_nothing [OF a b] by blast
qed

subsection \<open>VF after DRW\<close>

text \<open>
  C8. After a \<open>DRW\<close> that completes, \<open>VF\<close> is 0, whatever the display held before:
  \<open>V[0xF] = 0\<close> comes before the loops, and the loops write \<open>display_cells\<close> only. A
  \<open>DRW\<close> inside the display and \<open>RAM\<close> does complete.
\<close>

theorem DRW_leaves_VF_zero:
  assumes "GET_FIRST_NIBBLE w = 0xD" and "wf_context (chip8_context s)"
  shows "(\<forall>m s'. decode_instruction w s = Inr (m, s') \<longrightarrow> V (chip8_context s') ! 0xF = 0) \<and>
         (unat (Vx w s) + 7 \<le> 63 \<and>
          unat (Vy w s) + unat (GET_FOURTH_NIBBLE w) \<le> CHIP8_DISPLAY_HEIGHT \<and>
          unat (I (chip8_context s)) + unat (GET_FOURTH_NIBBLE w) \<le> RAM_SIZE \<longrightarrow>
          (\<exists>m s'. decode_instruction w s = Inr (m, s')))"
proof -
  have "V (chip8_context s') ! 0xF = 0" if "decode_instruction w s = Inr (m, s')" for m s'
    using decode_instruction_DRW_V [OF assms(1) that] assms(2)
    by (simp add: wf_context_def)
  moreover have "\<exists>m s'. decode_instruction w s = Inr (m, s')"
    if "unat (Vx w s) + 7 \<le> 63"
      "unat (Vy w s) + unat (GET_FOURTH_NIBBLE w) \<le> CHIP8_DISPLAY_HEIGHT"
      "unat (I (chip8_context s)) + unat (GET_FOURTH_NIBBLE w) \<le> RAM_SIZE"
  proof -
    have "unat (Vx w s) \<le> 56"
      and "unat (Vy w s) + unat (GET_FOURTH_NIBBLE w) \<le> DISPLAY_CELLS_LEN"
      using that by (simp_all add: size_defs)
    from decode_instruction_DRW_in_range [OF assms this that(3)] show ?thesis by blast
  qed
  ultimately show ?thesis by blast
qed

text \<open>
  A draw that turns the cell \<open>(5, 60)\<close> off, starting with \<open>VF = 1\<close>: \<open>VF\<close> is 0
  afterwards.
\<close>

theorem DRW_leaves_VF_zero_witness:
  "GET_FIRST_NIBBLE 0xD011 = 0xD \<and> wf_context (chip8_context drw_collision) \<and>
   V (chip8_context drw_collision) ! 0xF = 1 \<and>
   cell_on drw_collision 5 60 \<and>
   (\<exists>m s'. decode_instruction 0xD011 drw_collision = Inr (m, s') \<and>
      \<not> cell_on s' 5 60 \<and> V (chip8_context s') ! 0xF = 0)"
proof -
  have h: "GET_FIRST_NIBBLE 0xD011 = 0xD" "wf_context (chip8_context drw_collision)"
    and b: "unat (Vx 0xD011 drw_collision) + 7 \<le> 63 \<and>
          unat (Vy 0xD011 drw_collision) + unat (GET_FOURTH_NIBBLE 0xD011) \<le> CHIP8_DISPLAY_HEIGHT \<and>
          unat (I (chip8_context drw_collision)) + unat (GET_FOURTH_NIBBLE 0xD011) \<le> RAM_SIZE"
    and b': "unat (Vx 0xD011 drw_collision) + 7 \<le> 63"
          "unat (Vy 0xD011 drw_collision) + unat (GET_FOURTH_NIBBLE 0xD011) \<le> CHIP8_DISPLAY_HEIGHT"
          "unat (I (chip8_context drw_collision)) + unat (GET_FOURTH_NIBBLE 0xD011) \<le> RAM_SIZE"
    by (simp_all add: nibble_defs wf_context_def drw_collision_def Vx_def Vy_def size_defs)
  from DRW_leaves_VF_zero [OF h] b obtain m s' where
    run: "decode_instruction 0xD011 drw_collision = Inr (m, s')" and
    vf: "V (chip8_context s') ! 0xF = 0"
    by blast
  from DRW_cells_toggle [OF h b'] run
  have t: "cell_on s' 5 60 = (cell_on drw_collision 5 60 \<noteq> sprite_pixel 0xD011 drw_collision 5 60)"
    by (auto simp add: size_defs)
  have on: "cell_on drw_collision 5 60"
    by (simp add: cell_on_def get_display_cell_def drw_collision_def size_defs)
  have sp: "sprite_pixel 0xD011 drw_collision 5 60"
    by (simp add: sprite_pixel_def Vx_def Vy_def nibble_defs drw_collision_def)
  have "V (chip8_context drw_collision) ! 0xF = 1"
    by (simp add: drw_collision_def)
  with h run vf t on sp show ?thesis by auto
qed

subsection \<open>Words 0x0XEX\<close>

text \<open>
  C9. Every word with first nibble 0 and third nibble \<open>0xE\<close> clears the display and
  sets \<open>need_redraw\<close>, whatever its second and fourth nibble: \<open>0x00EE\<close> and \<open>0x0FE7\<close>
  do what \<open>0x00E0\<close> does.
\<close>

theorem first_nibble_0_third_nibble_E_clears:
  assumes "GET_FIRST_NIBBLE w = 0x0" and "GET_THIRD_NIBBLE w = 0xE"
  shows "\<exists>s'. decode_instruction w s = Inr (ClearTheDisplay, s') \<and>
           display_cells (chip8_context s') = replicate DISPLAY_CELLS_LEN 0 \<and>
           need_redraw s'"
  using decode_instruction_CLS [OF assms, of s] by simp

text \<open>
  The words \<open>0x00EE\<close> and \<open>0x0FE7\<close>.
\<close>

theorem first_nibble_0_third_nibble_E_clears_witness:
  "GET_FIRST_NIBBLE 0x00EE = 0x0 \<and> GET_THIRD_NIBBLE 0x00EE = 0xE \<and>
   GET_FIRST_NIBBLE 0x0FE7 = 0x0 \<and> GET_THIRD_NIBBLE 0x0FE7 = 0xE \<and>
   (\<exists>s'. decode_instruction 0x00EE cls_example = Inr (ClearTheDisplay, s') \<and>
      display_cells (chip8_context s') = replicate DISPLAY_CELLS_LEN 0 \<and> need_redraw s') \<and>
   (\<exists>s'. decode_instruction 0x0FE7 cls_example = Inr (ClearTheDisplay, s') \<and>
      display_cells (chip8_context s') = replicate DISPLAY_CELLS_LEN 0 \<and> need_redraw s')"
proof -
  have a: "GET_FIRST_NIBBLE 0x00EE = 0x0" "GET_THIRD_NIBBLE 0x00EE = 0xE"
    and b: "GET_FIRST_NIBBLE 0x0FE7 = 0x0" "GET_THIRD_NIBBLE 0x0FE7 = 0xE"
    by (simp_all add: nibble_defs)
  show ?thesis
    using a b first_nibble_0_third_nibble_E_clears [OF a, of cls_example]
      first_nibble_0_third_nibble_E_clears [OF b, of cls_example]
    by blast
qed

subsection \<open>Memory\<close>

text \<open>
  C10. \<open>decode_instruction\<close> never changes \<open>RAM\<close>: whenever it returns a state, the
  \<open>RAM\<close> of that state is the one it was given. Every word other than a \<open>DRW\<close> returns
  a state.
\<close>

theorem decode_instruction_keeps_RAM:
  "(\<forall>m s'. decode_instruction w s = Inr (m, s') \<longrightarrow>
       RAM (chip8_context s') = RAM (chip8_context s)) \<and>
   (GET_FIRST_NIBBLE w \<noteq> 0xD \<longrightarrow> (\<exists>m s'. decode_instruction w s = Inr (m, s')))"
proof (cases "GET_FIRST_NIBBLE w = 0xD")
  case True
  have "RAM (chip8_context s') = RAM (chip8_context s)"
    if "decode_instruction w s = Inr (m, s')" for m s'
  proof -
    from that obtain c' where
      run: "draw_sprite_rows (ucast (V (chip8_context s) ! unat (GET_SECOND_NIBBLE w)))
             (ucast (V (chip8_context s) ! unat (GET_THIRD_NIBBLE w)))
             (ucast (GET_FOURTH_NIBBLE w)) 0
             ((chip8_context s)\<lparr>V := (V (chip8_context s))[0xF := 0]\<rparr>) = Inr c'"
      and s': "s' = s\<lparr>chip8_context := c', need_redraw := True\<rparr>"
      unfolding decode_instruction_DRW [OF True] by (auto split: sum.splits)
    from draw_sprite_rows_frame [OF run] have "RAM c' = RAM (chip8_context s)"
      by (metis CHIP8Context.select_convs(1) CHIP8Context.surjective
          CHIP8Context.update_convs(6) CHIP8Context.update_convs(7))
    then show ?thesis by (simp add: s')
  qed
  with True show ?thesis by blast
next
  case False
  then show ?thesis
    by (auto simp add: decode_instruction_def Let_def first_nibble_eq_iff)
qed

text \<open>
  A \<open>DRW\<close> that reads the sprite byte at \<open>0x300\<close>.
\<close>

theorem decode_instruction_keeps_RAM_witness:
  "\<exists>m s'. decode_instruction 0xD011 drw_collision = Inr (m, s') \<and>
      RAM (chip8_context s') = RAM (chip8_context drw_collision) \<and>
      RAM (chip8_context s') ! 0x300 = 0xFF"
proof -
  have h: "GET_FIRST_NIBBLE 0xD011 = 0xD" "wf_context (chip8_context drw_collision)"
      "unat (Vx 0xD011 drw_collision) \<le> 56"
      "unat (Vy 0xD011 drw_collision) + unat (GET_FOURTH_NIBBLE 0xD011) \<le> DISPLAY_CELLS_LEN"
      "unat (I (chip8_context drw_collision)) + unat (GET_FOURTH_NIBBLE 0xD011) \<le> RAM_SIZE"
    by (simp_all add: nibble_defs wf_context_def drw_collision_def Vx_def Vy_def size_defs)
  from decode_instruction_DRW_in_range [OF h] obtain m s' where
    run: "decode_instruction 0xD011 drw_collision = Inr (m, s')"
    by blast
  from decode_instruction_keeps_RAM [of "0xD011" drw_collision] run
  have "RAM (chip8_context s') = RAM (chip8_context drw_collision)"
    by blast
  moreover have "RAM (chip8_context drw_collision) ! 0x300 = 0xFF"
    by (simp add: drw_collision_def)
  ultimately show ?thesis using run by auto
qed

end
